theory Spec2Isabelle
  imports Complex_Main "HOL-Library.Sublist"
begin

section \<open>Strings and character classes\<close>

text \<open>
  A Python \<open>str\<close> is a sequence of Unicode code points, and \<open>len\<close> counts code points.
  A string is therefore a list of code points, each a natural number.  ASCII literals are
  written with \<open>asc\<close>; other code points are written as numbers (U+00ED is 237).
\<close>

type_synonym ustring = "nat list"

definition asc :: "string \<Rightarrow> ustring" where
  "asc s = map of_char s"

text \<open>
  The regular expressions of the program use \<open>\w\<close>, \<open>\s\<close> and \<open>\d\<close> on \<open>str\<close> patterns,
  which consult the Unicode database of the interpreter.  Whitespace is a short fixed table
  and is written out.  The alphanumeric and decimal-digit tables are written out for
  U+0000..U+00FF; above U+00FF they are a parameter \<open>d\<close> of the model, which gives the
  class of a code point.  No whitespace code point is alphanumeric or a digit.
\<close>

datatype uclass = Nd | Alnum | Other

type_synonym ucd = "nat \<Rightarrow> uclass"

definition is_space :: "nat \<Rightarrow> bool" where
  "is_space c = ((9 \<le> c \<and> c \<le> 13) \<or> (28 \<le> c \<and> c \<le> 32) \<or> c = 133 \<or> c = 160
     \<or> c = 5760 \<or> (8192 \<le> c \<and> c \<le> 8202) \<or> c = 8232 \<or> c = 8233 \<or> c = 8239
     \<or> c = 8287 \<or> c = 12288)"

definition is_decimal :: "ucd \<Rightarrow> nat \<Rightarrow> bool" where
  "is_decimal d c = (if c < 256 then 48 \<le> c \<and> c \<le> 57 else \<not> is_space c \<and> d c = Nd)"

definition is_alnum :: "ucd \<Rightarrow> nat \<Rightarrow> bool" where
  "is_alnum d c =
     (if c < 256 then
        (48 \<le> c \<and> c \<le> 57) \<or> (65 \<le> c \<and> c \<le> 90) \<or> (97 \<le> c \<and> c \<le> 122)
        \<or> c = 170 \<or> c = 178 \<or> c = 179 \<or> c = 181 \<or> c = 185 \<or> c = 186
        \<or> (188 \<le> c \<and> c \<le> 190) \<or> (192 \<le> c \<and> c \<le> 214) \<or> (216 \<le> c \<and> c \<le> 246)
        \<or> (248 \<le> c \<and> c \<le> 255)
      else \<not> is_space c \<and> d c \<noteq> Other)"

text \<open>\<open>\w\<close>: alphanumeric or the underscore.\<close>

definition is_word :: "ucd \<Rightarrow> nat \<Rightarrow> bool" where
  "is_word d c = (is_alnum d c \<or> c = 95)"

text \<open>A table that classifies nothing above U+00FF, for evaluating Latin-1 inputs.\<close>

definition latin1 :: ucd where
  "latin1 = (\<lambda>c. Other)"

text \<open>\<open>str.strip()\<close>: whitespace removed at both ends.\<close>

definition lstrip :: "ustring \<Rightarrow> ustring" where
  "lstrip s = dropWhile is_space s"

definition rstrip :: "ustring \<Rightarrow> ustring" where
  "rstrip s = rev (dropWhile is_space (rev s))"

definition strip :: "ustring \<Rightarrow> ustring" where
  "strip s = rstrip (lstrip s)"

section \<open>Documents\<close>

text \<open>
  A \<open>Document\<close> has a \<open>page_content\<close> and a \<open>metadata\<close> dictionary.  The keys the
  program writes and reads are fields; a key that may be absent (\<open>dict.get\<close>) is optional.
\<close>

record metadata =
  source :: "ustring option"
  file_path :: "ustring option"
  content_type :: "ustring option"
  article_number :: "ustring option"
  page :: "nat option"

record document =
  page_content :: ustring
  metadata :: metadata

section \<open>Query pipeline: filter and rank (query_handler.py)\<close>

text \<open>
  A relevance score is a floating-point number, and the comparison \<open>score > 0.03\<close> is a
  comparison of floats.  A score is a Python float (IEEE binary64; a NumPy float64 scalar
  compares the same way) or a NumPy float32 scalar, as the index engine returns it.  Its
  value is a finite number, an infinity or a NaN; the finite value is the real number the
  float denotes.
\<close>

datatype fvalue = Finite real | PosInf | NegInf | NaN

datatype score = PyFloat fvalue | NpFloat32 fvalue

text \<open>
  A literal of the source is a binary64 value.  Compared with a Python float it is that
  value; compared with a NumPy float32 scalar it takes the scalar's type (NumPy 2), that
  is, its value rounded to binary32.  \<open>0.03\<close> is \<open>1080863910568919 / 2^55\<close> in binary64
  and \<open>16106127 / 2^29\<close> in binary32; \<open>0.05\<close> is \<open>3602879701896397 / 2^56\<close> and
  \<open>13421773 / 2^28\<close>.
\<close>

record literal =
  as_binary64 :: real
  as_binary32 :: real

definition lit_003 :: literal where
  "lit_003 = \<lparr>as_binary64 = 1080863910568919 / 2 ^ 55, as_binary32 = 16106127 / 2 ^ 29\<rparr>"

definition lit_005 :: literal where
  "lit_005 = \<lparr>as_binary64 = 3602879701896397 / 2 ^ 56, as_binary32 = 13421773 / 2 ^ 28\<rparr>"

text \<open>\<open>v > x\<close> on floats: false for a NaN, true for the positive infinity.\<close>

fun fgt :: "fvalue \<Rightarrow> real \<Rightarrow> bool" where
  "fgt (Finite v) x = (v > x)"
| "fgt PosInf x = True"
| "fgt NegInf x = False"
| "fgt NaN x = False"

text \<open>\<open>score > literal\<close>, in the float type of the score.\<close>

fun exceeds :: "score \<Rightarrow> literal \<Rightarrow> bool" where
  "exceeds (PyFloat v) lit = fgt v (as_binary64 lit)"
| "exceeds (NpFloat32 v) lit = fgt v (as_binary32 lit)"

text \<open>The three loops of \<open>answer_query_with_context\<close> append to lists that start empty.\<close>

definition is_article :: "document \<Rightarrow> bool" where
  "is_article doc = (content_type (metadata doc) = Some (asc ''article''))"

fun split_by_type ::
  "(document \<times> score) list \<Rightarrow> (document \<times> score) list \<times> (document \<times> score) list
     \<Rightarrow> (document \<times> score) list \<times> (document \<times> score) list" where
  "split_by_type [] (article_docs, general_docs) = (article_docs, general_docs)"
| "split_by_type ((doc, score) # rest) (article_docs, general_docs) =
     (if is_article doc
      then split_by_type rest (article_docs @ [(doc, score)], general_docs)
      else split_by_type rest (article_docs, general_docs @ [(doc, score)]))"

fun keep_above ::
  "literal \<Rightarrow> (document \<times> score) list \<Rightarrow> document list \<Rightarrow> document list" where
  "keep_above thr [] relevant = relevant"
| "keep_above thr ((doc, score) # rest) relevant =
     (if exceeds score thr then keep_above thr rest (relevant @ [doc])
      else keep_above thr rest relevant)"

definition relevant_docs :: "(document \<times> score) list \<Rightarrow> document list" where
  "relevant_docs docs =
     (case split_by_type docs ([], []) of
        (article_docs, general_docs) \<Rightarrow>
          keep_above lit_005 general_docs (keep_above lit_003 article_docs []))"

text \<open>
  A retrieval result used to evaluate the filter on a concrete input.  Every score is a
  value of its float type: \<open>g2\<close>, \<open>a2\<close> and \<open>g3\<close> carry the floats that the literals
  \<open>0.05\<close> and \<open>0.03\<close> denote, \<open>a4\<close> the next binary64 value above \<open>0.03\<close>.
\<close>

definition mk_doc :: "ustring \<Rightarrow> ustring \<Rightarrow> document" where
  "mk_doc ty txt = \<lparr>page_content = txt,
     metadata = \<lparr>source = Some (asc ''a.pdf''), file_path = Some (asc ''convocatorias/a.pdf''),
       content_type = Some ty, article_number = None, page = None\<rparr>\<rparr>"

definition sample_docs :: "(document \<times> score) list" where
  "sample_docs =
     [(mk_doc (asc ''general'') (asc ''g1''), PyFloat (Finite (7 / 8))),
      (mk_doc (asc ''article'') (asc ''a1''), PyFloat (Finite (1 / 32))),
      (mk_doc (asc ''general'') (asc ''g2''), PyFloat (Finite (3602879701896397 / 2 ^ 56))),
      (mk_doc (asc ''article'') (asc ''a2''), PyFloat (Finite (1080863910568919 / 2 ^ 55))),
      (mk_doc (asc ''article'') (asc ''a3''), NpFloat32 (Finite (1 / 2))),
      (mk_doc (asc ''general'') (asc ''g3''), NpFloat32 (Finite (13421773 / 2 ^ 28))),
      (mk_doc (asc ''article'') (asc ''a4''), PyFloat (Finite (8646911284551353 / 2 ^ 58))),
      (mk_doc (asc ''general'') (asc ''g4''), PyFloat NaN)]"

section \<open>Text normalisation (extract_documents.py, clean_text)\<close>

text \<open>\<open>text.replace('\f', '\n\n')\<close>: every form feed (U+000C) becomes two line feeds.\<close>

definition replace_formfeed :: "ustring \<Rightarrow> ustring" where
  "replace_formfeed s = concat (map (\<lambda>c. if c = 12 then [10, 10] else [c]) s)"

text \<open>
  \<open>re.sub(r'[ \t]+', ' ', text)\<close>: scanning from the left, each maximal run of spaces and
  tabs is replaced by one space.
\<close>

definition is_blank :: "nat \<Rightarrow> bool" where
  "is_blank c = (c = 32 \<or> c = 9)"

function collapse_blanks :: "ustring \<Rightarrow> ustring" where
  "collapse_blanks [] = []"
| "collapse_blanks (c # cs) =
     (if is_blank c then 32 # collapse_blanks (dropWhile is_blank cs)
      else c # collapse_blanks cs)"
  by pat_completeness auto
termination
  by (relation "measure length") (auto simp: le_imp_less_Suc length_dropWhile_le)

text \<open>
  \<open>re.sub(r'\n{3,}', '\n\n', text)\<close>: a match needs three line feeds at the position and
  then takes the whole run; a run of one or two line feeds is copied.
\<close>

function collapse_newlines :: "ustring \<Rightarrow> ustring" where
  "collapse_newlines [] = []"
| "collapse_newlines (c # cs) =
     (if c = 10 then
        (if length (takeWhile (\<lambda>x. x = 10) (c # cs)) \<ge> 3 then [10, 10]
         else takeWhile (\<lambda>x. x = 10) (c # cs))
        @ collapse_newlines (dropWhile (\<lambda>x. x = 10) cs)
      else c # collapse_newlines cs)"
  by pat_completeness auto
termination
  by (relation "measure length") (auto simp: le_imp_less_Suc length_dropWhile_le)

text \<open>
  \<open>re.sub(r'[^\w\s\.,;:()\<questiondown>?\<exclamdown>!-]', '', text)\<close>: a character stays iff it is a word
  character, whitespace, or one of the eleven punctuation marks (U+00BF is 191, U+00A1 is 161).
\<close>

definition allowed :: "ucd \<Rightarrow> nat \<Rightarrow> bool" where
  "allowed d c = (is_word d c \<or> is_space c \<or> c = 46 \<or> c = 44 \<or> c = 59 \<or> c = 58
     \<or> c = 40 \<or> c = 41 \<or> c = 191 \<or> c = 63 \<or> c = 161 \<or> c = 33 \<or> c = 45)"

definition clean_text :: "ucd \<Rightarrow> ustring \<Rightarrow> ustring" where
  "clean_text d text =
     (if text = [] then []
      else strip (filter (allowed d)
             (collapse_newlines (collapse_blanks (replace_formfeed text)))))"

text \<open>
  Two shapes of a string that the proofs below use: no tab and no two adjacent spaces; no
  three adjacent line feeds.
\<close>

fun tidy_blanks :: "ustring \<Rightarrow> bool" where
  "tidy_blanks [] = True"
| "tidy_blanks [c] = (c \<noteq> 9)"
| "tidy_blanks (c # c' # cs) = (c \<noteq> 9 \<and> \<not> (c = 32 \<and> c' = 32) \<and> tidy_blanks (c' # cs))"

fun no_long_break :: "ustring \<Rightarrow> bool" where
  "no_long_break (a # b # c # cs) = (\<not> (a = 10 \<and> b = 10 \<and> c = 10) \<and> no_long_break (b # c # cs))"
| "no_long_break cs = True"

section \<open>Article segmentation (extract_documents.py, extract_article_with_context)\<close>

text \<open>
  The pattern, compiled with \<open>re.DOTALL\<close> only:
  \<^verbatim>\<open>(?:Art\<iacute>culo|Art\.) *(\d+)[.\s]+(.*?)(?=(?:Art\<iacute>culo|Art\.) *\d+[.\s]|$)\<close>.
  The two spellings of the marker are matched as written: no flag makes the match
  case-insensitive.  U+00ED (i with acute) is 237.
\<close>

definition kw_articulo :: ustring where
  "kw_articulo = asc ''Art'' @ [237] @ asc ''culo''"

definition kw_art :: ustring where
  "kw_art = asc ''Art.''"

text \<open>\<open>(?:Art\<iacute>culo|Art\.)\<close> at the front of \<open>s\<close>: the text after the marker.\<close>

definition match_keyword :: "ustring \<Rightarrow> ustring option" where
  "match_keyword s =
     (if prefix kw_articulo s then Some (drop (length kw_articulo) s)
      else if prefix kw_art s then Some (drop (length kw_art) s)
      else None)"

text \<open>
  \<open> *(\d+)\<close>: the spaces (U+0020 only), then the longest run of decimal digits, which must
  not be empty.  The greedy runs never give a character back: a space is not a digit, and a
  digit is neither a full stop nor whitespace.
\<close>

definition match_number :: "ucd \<Rightarrow> ustring \<Rightarrow> (ustring \<times> ustring) option" where
  "match_number d s =
     (let s1 = dropWhile (\<lambda>c. c = 32) s;
          num = takeWhile (is_decimal d) s1;
          s2 = dropWhile (is_decimal d) s1
      in if num = [] then None else Some (num, s2))"

text \<open>\<open>[.\s]\<close>: a full stop or a whitespace character.\<close>

definition is_sep :: "nat \<Rightarrow> bool" where
  "is_sep c = (c = 46 \<or> is_space c)"

text \<open>
  The head of a match, \<open>(?:Art\<iacute>culo|Art\.) *(\d+)[.\s]+\<close>: the number and the text after the
  longest run of separators.
\<close>

definition match_head :: "ucd \<Rightarrow> ustring \<Rightarrow> (ustring \<times> ustring) option" where
  "match_head d s =
     (case match_keyword s of
        None \<Rightarrow> None
      | Some s0 \<Rightarrow>
          (case match_number d s0 of
             None \<Rightarrow> None
           | Some (num, s2) \<Rightarrow>
               if s2 \<noteq> [] \<and> is_sep (hd s2) then Some (num, dropWhile is_sep s2) else None))"

text \<open>
  The lookahead \<open>(?=(?:Art\<iacute>culo|Art\.) *\d+[.\s]|$)\<close>.  Without \<open>re.MULTILINE\<close>, \<open>$\<close>
  matches at the end of the string and before a line feed that ends the string.
\<close>

definition at_end :: "ustring \<Rightarrow> bool" where
  "at_end s = (s = [] \<or> s = [10])"

definition lookahead :: "ucd \<Rightarrow> ustring \<Rightarrow> bool" where
  "lookahead d s =
     ((case match_keyword s of
         None \<Rightarrow> False
       | Some s0 \<Rightarrow>
           (case match_number d s0 of
              None \<Rightarrow> False
            | Some (num, s2) \<Rightarrow> s2 \<noteq> [] \<and> is_sep (hd s2)))
      \<or> at_end s)"

text \<open>
  \<open>(.*?)\<close> with \<open>re.DOTALL\<close>: the shortest text, of any characters, after which the
  lookahead holds.  The result is the body and the text from the end of the match.
\<close>

fun lazy_body :: "ucd \<Rightarrow> ustring \<Rightarrow> ustring \<times> ustring" where
  "lazy_body d [] = ([], [])"
| "lazy_body d (c # cs) =
     (if lookahead d (c # cs) then ([], c # cs)
      else (case lazy_body d cs of (body, r) \<Rightarrow> (c # body, r)))"

lemma lazy_body_length: "length (snd (lazy_body d s)) \<le> length s"
  by (induction s) (auto split: prod.splits)

lemma match_number_length: "match_number d s = Some (num, s2) \<Longrightarrow> length s2 \<le> length s"
proof -
  have "length (dropWhile (is_decimal d) (dropWhile (\<lambda>c. c = 32) s)) \<le> length s"
    by (meson length_dropWhile_le order_trans)
  moreover assume "match_number d s = Some (num, s2)"
  ultimately show ?thesis by (auto simp: match_number_def Let_def split: if_splits)
qed

lemma match_keyword_length: "match_keyword s = Some s0 \<Longrightarrow> length s0 < length s"
  by (auto simp: match_keyword_def kw_articulo_def kw_art_def asc_def prefix_def
        split: if_splits)

lemma match_head_length: "match_head d s = Some (num, rest) \<Longrightarrow> length rest < length s"
proof -
  assume h: "match_head d s = Some (num, rest)"
  then obtain s0 s2 where k: "match_keyword s = Some s0" and n: "match_number d s0 = Some (num, s2)"
    and r: "rest = dropWhile is_sep s2"
    by (auto simp: match_head_def split: option.splits if_splits)
  have "length rest \<le> length s2" unfolding r by (rule length_dropWhile_le)
  also have "\<dots> \<le> length s0" using n by (rule match_number_length)
  also have "\<dots> < length s" using k by (rule match_keyword_length)
  finally show ?thesis .
qed

text \<open>
  \<open>re.finditer\<close>: the leftmost match from the current position; the search goes on from
  the end of the match (a match is never empty).  Each match gives groups 1 and 2.
\<close>

function finditer :: "ucd \<Rightarrow> ustring \<Rightarrow> (ustring \<times> ustring) list" where
  "finditer d [] = []"
| "finditer d (c # cs) =
     (case match_head d (c # cs) of
        None \<Rightarrow> finditer d cs
      | Some (num, rest) \<Rightarrow> (num, fst (lazy_body d rest)) # finditer d (snd (lazy_body d rest)))"
  by pat_completeness auto
termination
proof (relation "measure (\<lambda>(d, s). length s)")
  show "wf (measure (\<lambda>(d, s). length s))" by simp
next
  fix d :: ucd and c :: nat and cs :: ustring
  show "((d, cs), (d, c # cs)) \<in> measure (\<lambda>(d, s). length s)" by simp
next
  fix d :: ucd and c :: nat and cs :: ustring and x2 num rest
  assume "match_head d (c # cs) = Some x2" and "(num, rest) = x2"
  then have "length rest < length (c # cs)" using match_head_length by metis
  moreover have "length (snd (lazy_body d rest)) \<le> length rest" by (rule lazy_body_length)
  ultimately show "((d, snd (lazy_body d rest)), (d, c # cs)) \<in> measure (\<lambda>(d, s). length s)"
    by simp
qed

record article =
  number :: ustring
  content :: ustring

definition extract_article_with_context :: "ucd \<Rightarrow> ustring \<Rightarrow> article list" where
  "extract_article_with_context d text =
     map (\<lambda>(article_num, body).
            \<lparr>number = article_num,
             content = kw_articulo @ asc '' '' @ article_num @ asc ''. '' @ strip body\<rparr>)
         (finditer d text)"

text \<open>
  The non-empty suffixes of a text, longest first: the positions at which a match can
  start, each with the text from there on.
\<close>

fun tails :: "'a list \<Rightarrow> 'a list list" where
  "tails [] = []"
| "tails (c # cs) = (c # cs) # tails cs"

text \<open>A text that mixes three spellings of the marker.\<close>

definition heading_mixed :: ustring where
  "heading_mixed =
     asc ''ART'' @ [205] @ asc ''CULO 5. Uno. '' @ kw_articulo @ asc '' 6. Dos. art'' @ [237]
       @ asc ''culo 7. Tres.''"

text \<open>Inputs on which the segmenter is evaluated.\<close>

definition c6_input :: ustring where
  "c6_input = kw_articulo @ asc '' 7. Body text. '' @ kw_articulo @ asc '' 8. More text.''"

definition heading_upper :: ustring where
  "heading_upper = asc ''ART'' @ [205] @ asc ''CULO 5. Plazo.''"

definition heading_lower :: ustring where
  "heading_lower = asc ''art'' @ [237] @ asc ''culo 5. Plazo.''"

definition heading_canonical :: ustring where
  "heading_canonical = kw_articulo @ asc '' 5. Plazo.''"

section \<open>Document builder (extract_documents.py, extract_text_from_folder)\<close>

text \<open>
  An exception is a value.  \<open>Failure msg\<close> is an exception raised by a collaborator (the
  file system, the PDF library, the index engine, the generation service), with \<open>msg\<close>
  its \<open>str\<close>; \<open>NameError name\<close> is the interpreter's error for a name that is not bound.
\<close>

datatype py_error = Failure ustring | NameError ustring

fun str_of_error :: "py_error \<Rightarrow> ustring" where
  "str_of_error (Failure msg) = msg"
| "str_of_error (NameError name) = asc ''name '' @ [39] @ name @ [39] @ asc '' is not defined''"

text \<open>
  A PDF as the builder sees it: \<open>pdfplumber.open\<close> raises or gives the pages, and
  \<open>extract_text\<close> of a page raises or returns \<open>None\<close> or a string.  A folder is what
  \<open>os.listdir\<close> gives, each name with the PDF behind it.
\<close>

type_synonym page_outcome = "py_error + ustring option"
type_synonym pdf_outcome = "py_error + page_outcome list"
type_synonym folder_listing = "py_error + (ustring \<times> pdf_outcome) list"

text \<open>\<open>str(i)\<close> of a non-negative integer.\<close>

function str_nat :: "nat \<Rightarrow> ustring" where
  "str_nat n = (if n < 10 then [48 + n] else str_nat (n div 10) @ [48 + n mod 10])"
  by pat_completeness auto
termination
  by (relation "measure id") auto

text \<open>Python's \<open>x in s\<close> on strings: \<open>x\<close> occurs in \<open>s\<close> as a contiguous piece.\<close>

fun str_in :: "ustring \<Rightarrow> ustring \<Rightarrow> bool" where
  "str_in x [] = (x = [])"
| "str_in x (c # cs) = (prefix x (c # cs) \<or> str_in x cs)"

text \<open>
  \<open>s.replace(old, '')\<close>: the occurrences of \<open>old\<close> are deleted from the left, without
  overlap; an empty \<open>old\<close> deletes nothing.
\<close>

function str_remove :: "ustring \<Rightarrow> ustring \<Rightarrow> ustring" where
  "str_remove old [] = []"
| "str_remove old (c # cs) =
     (if old \<noteq> [] \<and> prefix old (c # cs) then str_remove old (drop (length old) (c # cs))
      else c # str_remove old cs)"
  by pat_completeness auto
termination
  by (relation "measure (\<lambda>(old, s). length s)") auto

text \<open>
  \<open>f.lower().endswith('.pdf')\<close>.  Only the ASCII capitals lower-case to \<open>p\<close>, \<open>d\<close> and
  \<open>f\<close>, so the test reads the last four code points.
\<close>

definition ascii_lower :: "nat \<Rightarrow> nat" where
  "ascii_lower c = (if 65 \<le> c \<and> c \<le> 90 then c + 32 else c)"

definition is_pdf_name :: "ustring \<Rightarrow> bool" where
  "is_pdf_name f = (4 \<le> length f \<and> map ascii_lower (drop (length f - 4) f) = asc ''.pdf'')"

text \<open>\<open>os.path.join(folder_path, filename)\<close> on a POSIX system.\<close>

definition path_join :: "ustring \<Rightarrow> ustring \<Rightarrow> ustring" where
  "path_join folder_path filename =
     (if filename \<noteq> [] \<and> hd filename = 47 then filename
      else if folder_path = [] \<or> last folder_path = 47 then folder_path @ filename
      else folder_path @ [47] @ filename)"

text \<open>
  The page loop: \<open>enumerate(pdf.pages, 1)\<close>.  A page whose text is \<open>None\<close> or empty is
  passed over; the others are stored under their number and appended to \<open>full_text\<close>
  after the marker \<open>\n[P\<Aacute>GINA i]\n\<close> (U+00C1 is 193).  An exception of \<open>extract_text\<close>
  leaves the loop and the file.
\<close>

definition page_marker :: "nat \<Rightarrow> ustring" where
  "page_marker i = [10] @ asc ''[P'' @ [193] @ asc ''GINA '' @ str_nat i @ asc '']'' @ [10]"

fun read_pages ::
  "nat \<Rightarrow> page_outcome list \<Rightarrow> ustring \<Rightarrow> (nat \<times> ustring) list
     \<Rightarrow> py_error + ustring \<times> (nat \<times> ustring) list" where
  "read_pages i [] full_text page_texts = Inr (full_text, page_texts)"
| "read_pages i (pg # pages) full_text page_texts =
     (case pg of
        Inl e \<Rightarrow> Inl e
      | Inr None \<Rightarrow> read_pages (i + 1) pages full_text page_texts
      | Inr (Some page_text) \<Rightarrow>
          if page_text = [] then read_pages (i + 1) pages full_text page_texts
          else read_pages (i + 1) pages (full_text @ page_marker i @ page_text)
                 (page_texts @ [(i, page_text)]))"

text \<open>
  The page of an article.  The loop variable is \<open>page_num\<close> itself: every iteration
  assigns it the page number before the test, and \<open>break\<close> leaves it there.  The last
  argument is the value of \<open>page_num\<close> on entry.
\<close>

fun find_article_page ::
  "ucd \<Rightarrow> ustring \<Rightarrow> (nat \<times> ustring) list \<Rightarrow> nat option \<Rightarrow> nat option" where
  "find_article_page d article_content [] page_num = page_num"
| "find_article_page d article_content ((k, page_text) # rest) page_num =
     (if str_in article_content (clean_text d page_text) then Some k
      else find_article_page d article_content rest (Some k))"

text \<open>
  The page of a chunk.  Here the loop variables are \<open>pnum\<close> and \<open>ptext\<close>, and
  \<open>page_num\<close> is assigned only when the chunk is found.
\<close>

fun find_chunk_page :: "ucd \<Rightarrow> ustring \<Rightarrow> (nat \<times> ustring) list \<Rightarrow> nat option" where
  "find_chunk_page d chunk [] = None"
| "find_chunk_page d chunk ((pnum, ptext) # rest) =
     (if str_in chunk (clean_text d ptext) then Some pnum else find_chunk_page d chunk rest)"

definition article_document ::
  "ucd \<Rightarrow> ustring \<Rightarrow> ustring \<Rightarrow> (nat \<times> ustring) list \<Rightarrow> article \<Rightarrow> document" where
  "article_document d filename path page_texts a =
     \<lparr>page_content = content a,
      metadata = \<lparr>source = Some filename, file_path = Some path,
        content_type = Some (asc ''article''), article_number = Some (number a),
        page = find_article_page d (content a) page_texts None\<rparr>\<rparr>"

definition chunk_document ::
  "ucd \<Rightarrow> ustring \<Rightarrow> ustring \<Rightarrow> (nat \<times> ustring) list \<Rightarrow> ustring \<Rightarrow> document" where
  "chunk_document d filename path page_texts chunk =
     \<lparr>page_content = chunk,
      metadata = \<lparr>source = Some filename, file_path = Some path,
        content_type = Some (asc ''general''), article_number = None,
        page = find_chunk_page d chunk page_texts\<rparr>\<rparr>"

text \<open>The loop over the chunks: a chunk shorter than 100 after \<open>strip\<close> is passed over.\<close>

fun chunk_documents ::
  "ucd \<Rightarrow> ustring \<Rightarrow> ustring \<Rightarrow> (nat \<times> ustring) list \<Rightarrow> ustring list \<Rightarrow> document list
     \<Rightarrow> document list" where
  "chunk_documents d filename path page_texts [] all_documents = all_documents"
| "chunk_documents d filename path page_texts (chunk # chunks) all_documents =
     (if length (strip chunk) < 100
      then chunk_documents d filename path page_texts chunks all_documents
      else chunk_documents d filename path page_texts chunks
             (all_documents @ [chunk_document d filename path page_texts chunk]))"

text \<open>
  The body of the \<open>try\<close> for one file.  \<open>split_text\<close> is the text splitter of the
  library (\<open>RecursiveCharacterTextSplitter\<close>, chunk size 1500, overlap 300), a parameter of
  the model: a function from a string to its chunks.  The result is the documents the file
  appends to \<open>all_documents\<close>, or the exception that leaves the \<open>try\<close>; an exception can
  only come from opening the file or from a page, before the first append.
\<close>

definition process_file ::
  "ucd \<Rightarrow> (ustring \<Rightarrow> ustring list) \<Rightarrow> ustring \<Rightarrow> ustring \<times> pdf_outcome
     \<Rightarrow> py_error + document list" where
  "process_file d split_text folder_path entry =
     (case entry of (filename, pdf) \<Rightarrow>
        (case pdf of
           Inl e \<Rightarrow> Inl e
         | Inr pages \<Rightarrow>
             (case read_pages 1 pages [] [] of
                Inl e \<Rightarrow> Inl e
              | Inr (full_text, page_texts) \<Rightarrow>
                  (let path = path_join folder_path filename;
                       cleaned_text = clean_text d full_text;
                       articles = extract_article_with_context d cleaned_text;
                       article_documents =
                         map (article_document d filename path page_texts) articles;
                       remainder = fold (\<lambda>a t. str_remove (content a) t) articles cleaned_text;
                       chunks = split_text remainder
                   in Inr (chunk_documents d filename path page_texts chunks
                             article_documents)))))"

text \<open>
  The loop over the files, with \<open>all_documents\<close> and the records that \<open>logger.error\<close>
  writes (the records of level INFO are not part of the model).  An exception inside the
  \<open>try\<close> is logged and the loop goes on.
\<close>

definition error_record :: "ustring \<Rightarrow> py_error \<Rightarrow> ustring" where
  "error_record filename e =
     asc ''Error processing '' @ filename @ asc '': '' @ str_of_error e"

fun process_files ::
  "ucd \<Rightarrow> (ustring \<Rightarrow> ustring list) \<Rightarrow> ustring \<Rightarrow> (ustring \<times> pdf_outcome) list
     \<Rightarrow> document list \<times> ustring list \<Rightarrow> document list \<times> ustring list" where
  "process_files d split_text folder_path [] (all_documents, errors) = (all_documents, errors)"
| "process_files d split_text folder_path (entry # pdf_files) (all_documents, errors) =
     (case process_file d split_text folder_path entry of
        Inl e \<Rightarrow>
          process_files d split_text folder_path pdf_files
            (all_documents, errors @ [error_record (fst entry) e])
      | Inr documents \<Rightarrow>
          process_files d split_text folder_path pdf_files
            (all_documents @ documents, errors))"

text \<open>
  \<open>os.listdir\<close> is called outside the \<open>try\<close>: its exception is the function's.  The
  result is \<open>all_documents\<close> with the error records written.
\<close>

definition extract_text_from_folder ::
  "ucd \<Rightarrow> (ustring \<Rightarrow> ustring list) \<Rightarrow> ustring \<Rightarrow> folder_listing
     \<Rightarrow> py_error + document list \<times> ustring list" where
  "extract_text_from_folder d split_text folder_path listing =
     (case listing of
        Inl e \<Rightarrow> Inl e
      | Inr entries \<Rightarrow>
          Inr (process_files d split_text folder_path
                 (filter (\<lambda>entry. is_pdf_name (fst entry)) entries) ([], [])))"

text \<open>
  Inputs on which the builder is evaluated: two stand-ins for the splitter (a text shorter
  than the chunk size is one chunk), and PDFs with their pages.
\<close>

definition whole_text :: "ustring \<Rightarrow> ustring list" where
  "whole_text t = [t]"

definition text_and_tail :: "ustring \<Rightarrow> ustring list" where
  "text_and_tail t = [t, asc ''fin'']"

definition pdf_art5 :: "ustring \<times> pdf_outcome" where
  "pdf_art5 = (asc ''a.pdf'', Inr [Inr (Some (asc ''Art. 5. Texto''))])"

definition pdf_two_pages :: "ustring \<times> pdf_outcome" where
  "pdf_two_pages =
     (asc ''b.PDF'', Inr [Inr (Some (kw_articulo @ asc '' 1. Uno'')), Inr None,
                          Inr (Some (asc ''dos tres.''))])"

definition pdf_long :: "ustring \<times> pdf_outcome" where
  "pdf_long = (asc ''c.pdf'', Inr [Inr (Some (replicate 100 120))])"

definition pdf_unreadable :: "ustring \<times> pdf_outcome" where
  "pdf_unreadable = (asc ''bad.pdf'', Inl (Failure (asc ''No /Root object'')))"

definition pdf_bad_page :: "ustring \<times> pdf_outcome" where
  "pdf_bad_page =
     (asc ''bad2.pdf'', Inr [Inr (Some (asc ''x'')), Inl (Failure (asc ''bad page''))])"

definition notes_txt :: "ustring \<times> pdf_outcome" where
  "notes_txt = (asc ''notes.txt'', Inl (Failure (asc ''not a PDF'')))"

section \<open>Query pipeline: context assembly and answer (query_handler.py)\<close>

text \<open>
  The page token the handler looks for in a content, \<open>\[P\<aacute>gina (\d+)\]\<close> (U+00E1 is 225):
  the number and the text after the token, when the token stands at the front of \<open>s\<close>.
  The closing bracket is not a digit, so the run of digits never gives a character back.
\<close>

definition token_open :: ustring where
  "token_open = asc ''[P'' @ [225] @ asc ''gina ''"

definition match_page_token :: "ucd \<Rightarrow> ustring \<Rightarrow> (ustring \<times> ustring) option" where
  "match_page_token d s =
     (if prefix token_open s then
        (let s1 = drop (length token_open) s;
             num = takeWhile (is_decimal d) s1;
             s2 = dropWhile (is_decimal d) s1
         in if num \<noteq> [] \<and> s2 \<noteq> [] \<and> hd s2 = 93 then Some (num, tl s2) else None)
      else None)"

lemma match_page_token_length:
  "match_page_token d s = Some (num, rest) \<Longrightarrow> length rest < length s"
proof -
  assume h: "match_page_token d s = Some (num, rest)"
  let ?s1 = "drop (length token_open) s"
  from h have p: "prefix token_open s" and r: "rest = tl (dropWhile (is_decimal d) ?s1)"
    and ne: "dropWhile (is_decimal d) ?s1 \<noteq> []"
    by (auto simp: match_page_token_def Let_def split: if_splits)
  from ne have "length rest < length (dropWhile (is_decimal d) ?s1)" unfolding r by simp
  also have "\<dots> \<le> length ?s1" by (rule length_dropWhile_le)
  also have "\<dots> \<le> length s" by simp
  finally show ?thesis .
qed

text \<open>\<open>re.search\<close>: group 1 of the leftmost token, if there is one.\<close>

fun search_page_token :: "ucd \<Rightarrow> ustring \<Rightarrow> ustring option" where
  "search_page_token d [] = None"
| "search_page_token d (c # cs) =
     (case match_page_token d (c # cs) of
        Some (num, rest) \<Rightarrow> Some num
      | None \<Rightarrow> search_page_token d cs)"

text \<open>\<open>re.sub(r'\[P\<aacute>gina \d+\]', '', content)\<close>: every token is deleted, from the left.\<close>

function remove_page_tokens :: "ucd \<Rightarrow> ustring \<Rightarrow> ustring" where
  "remove_page_tokens d [] = []"
| "remove_page_tokens d (c # cs) =
     (case match_page_token d (c # cs) of
        Some (num, rest) \<Rightarrow> remove_page_tokens d rest
      | None \<Rightarrow> c # remove_page_tokens d cs)"
  by pat_completeness auto
termination
proof (relation "measure (\<lambda>(d, s). length s)")
  show "wf (measure (\<lambda>(d, s). length s))" by simp
next
  fix d :: ucd and c :: nat and cs :: ustring and x2 num rest
  assume "match_page_token d (c # cs) = Some x2" and "(num, rest) = x2"
  then have "length rest < length (c # cs)" using match_page_token_length by metis
  then show "((d, rest), (d, c # cs)) \<in> measure (\<lambda>(d, s). length s)" by simp
next
  fix d :: ucd and c :: nat and cs :: ustring
  show "((d, cs), (d, c # cs)) \<in> measure (\<lambda>(d, s). length s)" by simp
qed

text \<open>One entry of the context: the header line, a line feed, the cleaned content.\<close>

definition context_part :: "ucd \<Rightarrow> document \<Rightarrow> ustring" where
  "context_part d doc =
     (let src = (case source (metadata doc) of
                   Some s \<Rightarrow> s | None \<Rightarrow> asc ''Documento sin nombre'');
          pg = (case search_page_token d (page_content doc) of
                  Some num \<Rightarrow> num | None \<Rightarrow> asc ''N/A'');
          cleaned = strip (remove_page_tokens d (page_content doc))
      in asc ''[Fuente: '' @ src @ asc '' - P'' @ [225] @ asc ''gina '' @ pg @ asc '']:''
           @ [10] @ cleaned)"

text \<open>\<open>sep.join(parts)\<close>.\<close>

fun join :: "ustring \<Rightarrow> ustring list \<Rightarrow> ustring" where
  "join sep [] = []"
| "join sep [x] = x"
| "join sep (x # y # ys) = x @ sep @ join sep (y # ys)"

definition docs_context :: "ucd \<Rightarrow> document list \<Rightarrow> ustring" where
  "docs_context d relevant = join [10, 10] (map (context_part d) (take 10 relevant))"

text \<open>
  The names bound at module level in \<open>query_handler.py\<close>: its imports and its three
  functions.  The module imports \<open>logging\<close> and binds no \<open>logger\<close>.
\<close>

definition query_handler_globals :: "string list" where
  "query_handler_globals =
     [''os'', ''logging'', ''re'', ''List'', ''Dict'', ''Optional'', ''OpenAI'', ''FAISS'',
      ''preprocess_query'', ''answer_query_with_context'', ''format_chat_history'']"

text \<open>
  The \<open>except Exception as e\<close> block: \<open>logger.error(...)\<close> first, then the return of
  the message with \<open>str(e)\<close>.  Reading the global \<open>logger\<close> raises \<open>NameError\<close> when the
  module does not bind it, and that exception leaves the function.
\<close>

definition on_exception :: "py_error \<Rightarrow> py_error + ustring" where
  "on_exception e =
     (if ''logger'' \<in> set query_handler_globals
      then Inr (asc ''Lo siento, ocurri'' @ [243] @ asc '' un error al procesar tu consulta: ''
                  @ str_of_error e)
      else Inl (NameError (asc ''logger'')))"

text \<open>
  The body of the \<open>try\<close>.  The two collaborators are parameters: \<open>index\<close> is \<open>None\<close> or
  the search of the index handle, a function of the query that stands for
  \<open>index.similarity_search_with_relevance_scores(preprocess_query(query), k=20)\<close> and
  raises or returns the scored documents; \<open>generate\<close> stands for the call of the
  generation service on the user message and raises or returns the answer text.
  \<open>chat_history\<close> is accepted and not read.
\<close>

definition answer_body ::
  "ucd \<Rightarrow> ustring \<Rightarrow> (ustring \<Rightarrow> py_error + (document \<times> score) list) option
     \<Rightarrow> (ustring \<Rightarrow> py_error + ustring) \<Rightarrow> py_error + ustring" where
  "answer_body d query index generate =
     (case index of
        None \<Rightarrow> Inr (asc ''La base de conocimiento no est'' @ [225] @ asc '' disponible.'')
      | Some search \<Rightarrow>
          (case search query of
             Inl e \<Rightarrow> Inl e
           | Inr docs \<Rightarrow>
               if docs = [] then
                 Inr (asc ''No encontr'' @ [233] @ asc '' informaci'' @ [243]
                        @ asc ''n relevante para tu pregunta. '' @ [191] @ asc ''Podr'' @ [237]
                        @ asc ''as reformularla?'')
               else if relevant_docs docs = [] then
                 Inr (asc ''No encontr'' @ [233] @ asc '' informaci'' @ [243]
                        @ asc ''n suficientemente relevante. '' @ [191] @ asc ''Podr'' @ [237]
                        @ asc ''as reformular tu pregunta?'')
               else
                 generate (asc ''Contexto:'' @ [10] @ docs_context d (relevant_docs docs)
                             @ [10, 10] @ asc ''Pregunta: '' @ query)))"

definition answer_query_with_context ::
  "ucd \<Rightarrow> ustring \<Rightarrow> (ustring \<Rightarrow> py_error + (document \<times> score) list) option
     \<Rightarrow> (ustring \<Rightarrow> py_error + ustring) \<Rightarrow> (ustring \<times> ustring) list
     \<Rightarrow> py_error + ustring" where
  "answer_query_with_context d query index generate chat_history =
     (case answer_body d query index generate of
        Inr answer \<Rightarrow> Inr answer
      | Inl e \<Rightarrow> on_exception e)"

section \<open>Index construction and update (index_manager.py)\<close>

text \<open>
  The embedding and index engine is a parameter.  An index object is its identity and its
  contents.  \<open>from_documents\<close> stands for \<open>OpenAIEmbeddings()\<close> followed by
  \<open>FAISS.from_documents\<close>: it raises or returns a new object.  \<open>add_documents\<close> changes
  the contents of an object in place and may raise: it gives the exception, if any, and the
  contents it leaves.  The records written to the log are not part of the model.
\<close>

record 'st engine =
  from_documents :: "document list \<Rightarrow> py_error + nat \<times> 'st"
  add_documents :: "'st \<Rightarrow> document list \<Rightarrow> py_error option \<times> 'st"

definition create_index ::
  "'st engine \<Rightarrow> document list \<Rightarrow> py_error + (nat \<times> 'st) option" where
  "create_index eng documents =
     (if documents = [] then Inr None
      else (case from_documents eng documents of
              Inr index \<Rightarrow> Inr (Some index)
            | Inl e \<Rightarrow> Inr None))"

definition update_index ::
  "'st engine \<Rightarrow> (nat \<times> 'st) option \<Rightarrow> document list \<Rightarrow> py_error + (nat \<times> 'st) option" where
  "update_index eng existing_index new_documents =
     (if new_documents = [] then Inr existing_index
      else (case existing_index of
              None \<Rightarrow> create_index eng new_documents
            | Some (ident, st) \<Rightarrow>
                (case add_documents eng st new_documents of
                   (None, st') \<Rightarrow> Inr (Some (ident, st'))
                 | (Some e, st') \<Rightarrow> Inr (Some (ident, st')))))"

text \<open>An engine that is out of service, and a document to index.\<close>

definition engine_down :: "nat engine" where
  "engine_down =
     \<lparr>from_documents = (\<lambda>docs. Inl (Failure (asc ''connection refused''))),
      add_documents = (\<lambda>st docs. (Some (Failure (asc ''connection refused'')), st))\<rparr>"

text \<open>Collaborators on which the answer operation is evaluated.\<close>

definition search_down :: "ustring \<Rightarrow> py_error + (document \<times> score) list" where
  "search_down q = Inl (Failure (asc ''connection refused''))"

definition search_one :: "ustring \<Rightarrow> py_error + (document \<times> score) list" where
  "search_one q = Inr [(mk_doc (asc ''article'') (asc ''a1''), PyFloat (Finite (7 / 8)))]"

definition generate_down :: "ustring \<Rightarrow> py_error + ustring" where
  "generate_down msg = Inl (Failure (asc ''rate limit''))"

section \<open>Verified properties\<close>

subsection \<open>Filter and rank\<close>

lemma split_by_type_eq:
  "split_by_type docs (a, g) =
     (a @ filter (\<lambda>p. is_article (fst p)) docs, g @ filter (\<lambda>p. \<not> is_article (fst p)) docs)"
  by (induction docs arbitrary: a g) auto

lemma keep_above_eq:
  "keep_above thr ps acc = acc @ map fst (filter (\<lambda>p. exceeds (snd p) thr) ps)"
  by (induction ps arbitrary: acc) auto

lemma relevant_docs_eq:
  "relevant_docs docs =
     map fst (filter (\<lambda>p. is_article (fst p) \<and> exceeds (snd p) lit_003) docs) @
     map fst (filter (\<lambda>p. \<not> is_article (fst p) \<and> exceeds (snd p) lit_005) docs)"
  by (simp add: relevant_docs_def split_by_type_eq keep_above_eq conj_commute)

lemma articles_first:
  assumes "\<forall>x \<in> set xs. P x" and "\<forall>x \<in> set ys. \<not> P x"
  shows "\<forall>i j. i < j \<and> j < length (xs @ ys) \<and> P ((xs @ ys) ! j) \<longrightarrow> P ((xs @ ys) ! i)"
proof (intro allI impI)
  fix i j
  assume h: "i < j \<and> j < length (xs @ ys) \<and> P ((xs @ ys) ! j)"
  have "j < length xs"
  proof (rule ccontr)
    assume n: "\<not> j < length xs"
    with h have "j - length xs < length ys" by auto
    then have "ys ! (j - length xs) \<in> set ys" by (rule nth_mem)
    with assms(2) have "\<not> P (ys ! (j - length xs))" by blast
    with h n show False by (simp add: nth_append)
  qed
  with h have "i < length xs" by simp
  then have "xs ! i \<in> set xs" by (rule nth_mem)
  with assms(1) have "P (xs ! i)" by blast
  with \<open>i < length xs\<close> show "P ((xs @ ys) ! i)" by (simp add: nth_append)
qed

text \<open>
  The constants of the two literals are the floats nearest to the decimals: each binary64
  value is within half a unit in the last place of the decimal (\<open>2^-59\<close> for \<open>0.03\<close>,
  \<open>2^-58\<close> for \<open>0.05\<close>), and each binary32 value within half a unit of the binary64
  value (\<open>2^-30\<close> and \<open>2^-29\<close>).
\<close>

lemma literals_are_roundings:
  "\<bar>as_binary64 lit_003 - 3 / 100\<bar> \<le> 1 / 2 ^ 59"
  "\<bar>as_binary64 lit_005 - 5 / 100\<bar> \<le> 1 / 2 ^ 58"
  "\<bar>as_binary32 lit_003 - as_binary64 lit_003\<bar> \<le> 1 / 2 ^ 30"
  "\<bar>as_binary32 lit_005 - as_binary64 lit_005\<bar> \<le> 1 / 2 ^ 29"
  by (simp_all add: lit_003_def lit_005_def)

text \<open>
  A score equal to the float of the literal does not pass: the comparison is strict.
\<close>

lemma score_equal_to_literal_dropped:
  "\<not> exceeds (PyFloat (Finite (3602879701896397 / 2 ^ 56))) lit_005"
  "\<not> exceeds (NpFloat32 (Finite (13421773 / 2 ^ 28))) lit_005"
  "\<not> exceeds (PyFloat (Finite (1080863910568919 / 2 ^ 55))) lit_003"
  "\<not> exceeds (NpFloat32 (Finite (16106127 / 2 ^ 29))) lit_003"
  by (simp_all add: lit_003_def lit_005_def)

text \<open>
  C1.  For every list of retrieved (unit, score) pairs (the retrieval asks for 20, the
  statement holds for every length), the relevant list is the Article entries whose score
  is strictly greater than \<open>0.03\<close>, in retrieval order, followed by the other (General)
  entries whose score is strictly greater than \<open>0.05\<close>, in retrieval order; the
  comparison is the program's, of the float score with the float the literal denotes.  So
  an entry is kept iff it passes the threshold of its type, the order within a type is the
  retrieval order, and no General entry stands before an Article entry, whatever the
  scores.  For a finite score the comparison is that of its value with the value of the
  literal in the score's float type.
\<close>

theorem C1_filter_and_rank:
  "relevant_docs docs =
     map fst (filter (\<lambda>p. is_article (fst p) \<and> exceeds (snd p) lit_003) docs) @
     map fst (filter (\<lambda>p. \<not> is_article (fst p) \<and> exceeds (snd p) lit_005) docs)
   \<and> (\<forall>i j. i < j \<and> j < length (relevant_docs docs) \<and> is_article (relevant_docs docs ! j)
         \<longrightarrow> is_article (relevant_docs docs ! i))
   \<and> exceeds (PyFloat (Finite v)) lit_003 = (v > 1080863910568919 / 2 ^ 55)
   \<and> exceeds (PyFloat (Finite v)) lit_005 = (v > 3602879701896397 / 2 ^ 56)
   \<and> exceeds (NpFloat32 (Finite v)) lit_003 = (v > 16106127 / 2 ^ 29)
   \<and> exceeds (NpFloat32 (Finite v)) lit_005 = (v > 13421773 / 2 ^ 28)"
proof (intro conjI)
  define A where "A = map fst (filter (\<lambda>p. is_article (fst p) \<and> exceeds (snd p) lit_003) docs)"
  define G where "G = map fst (filter (\<lambda>p. \<not> is_article (fst p) \<and> exceeds (snd p) lit_005) docs)"
  show "relevant_docs docs =
     map fst (filter (\<lambda>p. is_article (fst p) \<and> exceeds (snd p) lit_003) docs) @
     map fst (filter (\<lambda>p. \<not> is_article (fst p) \<and> exceeds (snd p) lit_005) docs)"
    by (rule relevant_docs_eq)
  then have eq: "relevant_docs docs = A @ G" by (simp only: A_def G_def)
  have "\<forall>x \<in> set A. is_article x" by (auto simp: A_def)
  moreover have "\<forall>x \<in> set G. \<not> is_article x" by (auto simp: G_def)
  ultimately have "\<forall>i j. i < j \<and> j < length (A @ G) \<and> is_article ((A @ G) ! j)
         \<longrightarrow> is_article ((A @ G) ! i)"
    by (rule articles_first)
  with eq show "\<forall>i j. i < j \<and> j < length (relevant_docs docs)
         \<and> is_article (relevant_docs docs ! j) \<longrightarrow> is_article (relevant_docs docs ! i)"
    by simp
  show "exceeds (PyFloat (Finite v)) lit_003 = (v > 1080863910568919 / 2 ^ 55)"
    by (simp add: lit_003_def)
  show "exceeds (PyFloat (Finite v)) lit_005 = (v > 3602879701896397 / 2 ^ 56)"
    by (simp add: lit_005_def)
  show "exceeds (NpFloat32 (Finite v)) lit_003 = (v > 16106127 / 2 ^ 29)"
    by (simp add: lit_003_def)
  show "exceeds (NpFloat32 (Finite v)) lit_005 = (v > 13421773 / 2 ^ 28)"
    by (simp add: lit_005_def)
qed

lemma asc_article: "asc ''article'' = [97,114,116,105,99,108,101]"
  by (simp add: asc_def)

lemma asc_general: "asc ''general'' = [103,101,110,101,114,97,108]"
  by (simp add: asc_def)

lemma is_article_mk_doc: "is_article (mk_doc ty txt) = (ty = asc ''article'')"
  by (simp add: is_article_def mk_doc_def)

theorem C1_filter_and_rank_witness:
  "relevant_docs sample_docs =
     [mk_doc (asc ''article'') (asc ''a1''), mk_doc (asc ''article'') (asc ''a3''),
      mk_doc (asc ''article'') (asc ''a4''), mk_doc (asc ''general'') (asc ''g1'')]
   \<and> (1::nat) < 2 \<and> 2 < length (relevant_docs sample_docs)
   \<and> is_article (relevant_docs sample_docs ! 2)
   \<and> is_article (relevant_docs sample_docs ! 1)
   \<and> \<not> is_article (relevant_docs sample_docs ! 3)"
proof -
  note t = C1_filter_and_rank [of sample_docs]
  have e: "relevant_docs sample_docs =
     [mk_doc (asc ''article'') (asc ''a1''), mk_doc (asc ''article'') (asc ''a3''),
      mk_doc (asc ''article'') (asc ''a4''), mk_doc (asc ''general'') (asc ''g1'')]"
    by (subst t [THEN conjunct1])
       (simp add: sample_docs_def is_article_mk_doc asc_article asc_general
          lit_003_def lit_005_def)
  have h: "(1::nat) < 2 \<and> 2 < length (relevant_docs sample_docs)
      \<and> is_article (relevant_docs sample_docs ! 2)"
    by (simp add: e is_article_mk_doc)
  from t [THEN conjunct2, THEN conjunct1] have
    "(1::nat) < 2 \<and> 2 < length (relevant_docs sample_docs)
      \<and> is_article (relevant_docs sample_docs ! 2) \<longrightarrow> is_article (relevant_docs sample_docs ! 1)"
    by blast
  with h have "is_article (relevant_docs sample_docs ! 1)" by blast
  moreover have "\<not> is_article (relevant_docs sample_docs ! 3)"
    by (simp add: e is_article_mk_doc asc_article asc_general)
  ultimately show ?thesis using e h by simp
qed

subsection \<open>Text normalisation\<close>

lemma tidy_blanks_Cons: "tidy_blanks (c # cs) = (c \<noteq> 9 \<and> (cs \<noteq> [] \<longrightarrow> \<not> (c = 32 \<and> hd cs = 32)) \<and> tidy_blanks cs)"
  by (cases cs) auto

lemma hd_collapse_blanks:
  "xs \<noteq> [] \<Longrightarrow> \<not> is_blank (hd xs) \<Longrightarrow> collapse_blanks xs \<noteq> [] \<and> hd (collapse_blanks xs) = hd xs"
  by (cases xs) auto

lemma hd_dropWhile_blank: "dropWhile is_blank cs \<noteq> [] \<Longrightarrow> \<not> is_blank (hd (dropWhile is_blank cs))"
  using hd_dropWhile by blast

lemma collapse_blanks_Nil: "(collapse_blanks xs = []) = (xs = [])"
  by (cases xs) auto

lemma tidy_collapse_blanks: "tidy_blanks (collapse_blanks s)"
proof (induction s rule: collapse_blanks.induct)
  case 1 show ?case by simp
next
  case (2 c cs)
  show ?case
  proof (cases "is_blank c")
    case True
    with 2 have ih: "tidy_blanks (collapse_blanks (dropWhile is_blank cs))" by simp
    show ?thesis
    proof (cases "dropWhile is_blank cs = []")
      case True with \<open>is_blank c\<close> show ?thesis by (simp del: dropWhile_eq_Nil_conv)
    next
      case False
      then have "\<not> is_blank (hd (dropWhile is_blank cs))" by (rule hd_dropWhile_blank)
      with False have "hd (collapse_blanks (dropWhile is_blank cs)) \<noteq> 32"
        using hd_collapse_blanks [of "dropWhile is_blank cs"] by (auto simp: is_blank_def)
      with ih \<open>is_blank c\<close> show ?thesis by (simp add: tidy_blanks_Cons)
    qed
  next
    case False
    with 2 have ih: "tidy_blanks (collapse_blanks cs)" by simp
    show ?thesis
    proof (cases cs)
      case Nil with False show ?thesis by (simp add: is_blank_def)
    next
      case (Cons c' cs')
      with False ih show ?thesis
        by (auto simp: tidy_blanks_Cons is_blank_def)
    qed
  qed
qed

lemma collapse_blanks_tidy: "tidy_blanks s \<Longrightarrow> collapse_blanks s = s"
proof (induction s rule: tidy_blanks.induct)
  case 1 show ?case by simp
next
  case (2 c) then show ?case by (simp add: is_blank_def)
next
  case (3 c c' cs)
  then have t: "tidy_blanks (c' # cs)" and ih: "collapse_blanks (c' # cs) = c' # cs" by simp_all
  from t have "c' \<noteq> 9" by (simp add: tidy_blanks_Cons)
  show ?case
  proof (cases "is_blank c")
    case True
    with 3 have "c = 32" "c' \<noteq> 32" by (auto simp: is_blank_def)
    with \<open>c' \<noteq> 9\<close> have "dropWhile is_blank (c' # cs) = c' # cs" by (simp add: is_blank_def)
    with True ih \<open>c = 32\<close> show ?thesis by simp
  next
    case False
    with ih show ?thesis by simp
  qed
qed

lemma no_long_break_Cons:
  "no_long_break (c # cs) = (\<not> (c = 10 \<and> length (takeWhile (\<lambda>x. x = 10) cs) \<ge> 2) \<and> no_long_break cs)"
proof (cases cs)
  case Nil then show ?thesis by simp
next
  case (Cons b bs) then show ?thesis by (cases bs) auto
qed

lemma hd_collapse_newlines:
  "xs \<noteq> [] \<Longrightarrow> collapse_newlines xs \<noteq> [] \<and> hd (collapse_newlines xs) = hd xs"
  by (cases xs) auto

lemma tidy_dropWhile: "tidy_blanks xs \<Longrightarrow> tidy_blanks (dropWhile P xs)"
  by (induction xs) (auto simp: tidy_blanks_Cons)

lemma tidy_newlines_append:
  "\<forall>x \<in> set ns. x = 10 \<Longrightarrow> tidy_blanks ys \<Longrightarrow> tidy_blanks (ns @ ys)"
  by (induction ns) (auto simp: tidy_blanks_Cons)

lemma tidy_collapse_newlines: "tidy_blanks s \<Longrightarrow> tidy_blanks (collapse_newlines s)"
proof (induction s rule: collapse_newlines.induct)
  case 1 show ?case by simp
next
  case (2 c cs)
  from "2.prems" have tcs: "tidy_blanks cs" by (simp add: tidy_blanks_Cons)
  show ?case
  proof (cases "c = 10")
    case True
    from tcs have "tidy_blanks (dropWhile (\<lambda>x. x = 10) cs)" by (rule tidy_dropWhile)
    with True 2 have ih: "tidy_blanks (collapse_newlines (dropWhile (\<lambda>x. x = 10) cs))" by simp
    have a: "\<forall>x \<in> set [10, 10::nat]. x = 10" by simp
    have b: "\<forall>x \<in> set (takeWhile (\<lambda>x. x = 10) (c # cs)). x = 10"
      by (auto dest: set_takeWhileD)
    show ?thesis
      using True tidy_newlines_append [OF a ih] tidy_newlines_append [OF b ih]
      by (simp del: takeWhile.simps)
  next
    case False
    with 2 tcs have ih: "tidy_blanks (collapse_newlines cs)" by simp
    show ?thesis
    proof (cases "cs = []")
      case True with False "2.prems" show ?thesis by simp
    next
      case F: False
      then have "collapse_newlines cs \<noteq> [] \<and> hd (collapse_newlines cs) = hd cs"
        by (rule hd_collapse_newlines)
      with False ih "2.prems" F show ?thesis by (simp add: tidy_blanks_Cons)
    qed
  qed
qed

lemma takeWhile_newline_Nil: "xs = [] \<or> hd xs \<noteq> 10 \<Longrightarrow> takeWhile (\<lambda>x. x = (10::nat)) xs = []"
  by (cases xs) auto

lemma collapse_after_run:
  "collapse_newlines (dropWhile (\<lambda>x. x = 10) cs) = [] \<or>
   hd (collapse_newlines (dropWhile (\<lambda>x. x = 10) cs)) \<noteq> 10"
proof (cases "dropWhile (\<lambda>x. x = 10) cs = []")
  case True then show ?thesis by (simp del: dropWhile_eq_Nil_conv)
next
  case False
  then have "hd (dropWhile (\<lambda>x. x = 10) cs) \<noteq> 10" by (rule hd_dropWhile)
  with hd_collapse_newlines [OF False] show ?thesis by simp
qed

lemma takeWhile_run_cases:
  "length (takeWhile (\<lambda>x. x = (10::nat)) xs) = 1 \<Longrightarrow> takeWhile (\<lambda>x. x = 10) xs = [10]"
  "length (takeWhile (\<lambda>x. x = (10::nat)) xs) = 2 \<Longrightarrow> takeWhile (\<lambda>x. x = 10) xs = [10, 10]"
proof -
  have r: "takeWhile (\<lambda>x. x = (10::nat)) xs = replicate (length (takeWhile (\<lambda>x. x = 10) xs)) 10"
    by (induction xs) auto
  show "length (takeWhile (\<lambda>x. x = (10::nat)) xs) = 1 \<Longrightarrow> takeWhile (\<lambda>x. x = 10) xs = [10]"
    using r by (metis One_nat_def replicate.simps(1) replicate.simps(2))
  show "length (takeWhile (\<lambda>x. x = (10::nat)) xs) = 2 \<Longrightarrow> takeWhile (\<lambda>x. x = 10) xs = [10, 10]"
    using r by (metis One_nat_def Suc_1 replicate.simps(1) replicate.simps(2))
qed

lemma no_long_break_collapse: "no_long_break (collapse_newlines s)"
proof (induction s rule: collapse_newlines.induct)
  case 1 show ?case by simp
next
  case (2 c cs)
  show ?case
  proof (cases "c = 10")
    case True
    let ?Y = "collapse_newlines (dropWhile (\<lambda>x. x = 10) cs)"
    from True 2 have ih: "no_long_break ?Y" by simp
    have tw: "takeWhile (\<lambda>x. x = 10) ?Y = []"
      using collapse_after_run [of cs] by (rule takeWhile_newline_Nil)
    have one: "no_long_break (10 # ?Y)" using ih tw by (simp add: no_long_break_Cons)
    have two: "no_long_break (10 # 10 # ?Y)" using one tw by (simp add: no_long_break_Cons)
    let ?n = "length (takeWhile (\<lambda>x. x = 10) (c # cs))"
    have "?n \<ge> 1" using True by simp
    then consider "?n \<ge> 3" | "?n = 1" | "?n = 2" by linarith
    then show ?thesis
    proof cases
      case 1 with True two show ?thesis by (simp del: takeWhile.simps)
    next
      case 2
      then have "takeWhile (\<lambda>x. x = 10) (c # cs) = [10]" by (rule takeWhile_run_cases)
      with 2 True one show ?thesis by (simp del: takeWhile.simps)
    next
      case 3
      then have "takeWhile (\<lambda>x. x = 10) (c # cs) = [10, 10]" by (rule takeWhile_run_cases)
      with 3 True two show ?thesis by (simp del: takeWhile.simps)
    qed
  next
    case False
    with 2 show ?thesis by (simp add: no_long_break_Cons)
  qed
qed

lemma no_long_break_dropWhile: "no_long_break xs \<Longrightarrow> no_long_break (dropWhile P xs)"
  by (induction xs) (auto simp: no_long_break_Cons)

lemma collapse_newlines_id: "no_long_break s \<Longrightarrow> collapse_newlines s = s"
proof (induction s rule: collapse_newlines.induct)
  case 1 show ?case by simp
next
  case (2 c cs)
  from "2.prems" have ncs: "no_long_break cs" by (simp add: no_long_break_Cons)
  show ?case
  proof (cases "c = 10")
    case True
    from ncs have "no_long_break (dropWhile (\<lambda>x. x = 10) cs)" by (rule no_long_break_dropWhile)
    with True 2 have ih: "collapse_newlines (dropWhile (\<lambda>x. x = 10) cs) = dropWhile (\<lambda>x. x = 10) cs"
      by simp
    from True "2.prems" have "length (takeWhile (\<lambda>x. x = 10) cs) < 2"
      by (simp add: no_long_break_Cons)
    with True ih show ?thesis by simp
  next
    case False
    with 2 ncs show ?thesis by simp
  qed
qed

lemma rstrip_decomp: "s = rstrip s @ rev (takeWhile is_space (rev s))"
proof -
  have "rev (takeWhile is_space (rev s) @ dropWhile is_space (rev s)) = rev (rev s)"
    by (simp only: takeWhile_dropWhile_id)
  then show ?thesis by (simp only: rstrip_def rev_append rev_rev_ident)
qed

lemma tidy_appendD1: "tidy_blanks (xs @ ys) \<Longrightarrow> tidy_blanks xs"
  by (induction xs) (auto simp: tidy_blanks_Cons)

lemma takeWhile_append_le: "length (takeWhile P xs) \<le> length (takeWhile P (xs @ ys))"
  by (induction xs) auto

lemma no_long_break_appendD1: "no_long_break (xs @ ys) \<Longrightarrow> no_long_break xs"
proof (induction xs)
  case Nil show ?case by simp
next
  case (Cons x xs)
  then show ?case
    using takeWhile_append_le [of "\<lambda>x. x = 10" xs ys]
    by (auto simp: no_long_break_Cons)
qed

lemma tidy_strip: "tidy_blanks s \<Longrightarrow> tidy_blanks (strip s)"
proof -
  assume "tidy_blanks s"
  then have "tidy_blanks (lstrip s)" unfolding lstrip_def by (rule tidy_dropWhile)
  then have "tidy_blanks (rstrip (lstrip s) @ rev (takeWhile is_space (rev (lstrip s))))"
    using rstrip_decomp [of "lstrip s"] by simp
  then show ?thesis unfolding strip_def by (rule tidy_appendD1)
qed

lemma no_long_break_strip: "no_long_break s \<Longrightarrow> no_long_break (strip s)"
proof -
  assume "no_long_break s"
  then have "no_long_break (lstrip s)" unfolding lstrip_def by (rule no_long_break_dropWhile)
  then have "no_long_break (rstrip (lstrip s) @ rev (takeWhile is_space (rev (lstrip s))))"
    using rstrip_decomp [of "lstrip s"] by simp
  then show ?thesis unfolding strip_def by (rule no_long_break_appendD1)
qed

lemma set_strip: "set (strip s) \<subseteq> set s"
proof -
  have "set (rstrip (lstrip s)) \<subseteq> set (lstrip s)"
    unfolding rstrip_def using set_dropWhileD by fastforce
  moreover have "set (lstrip s) \<subseteq> set s"
    unfolding lstrip_def using set_dropWhileD by fastforce
  ultimately show ?thesis unfolding strip_def by blast
qed

lemma lstrip_id: "s = [] \<or> \<not> is_space (hd s) \<Longrightarrow> lstrip s = s"
  by (cases s) (auto simp: lstrip_def)

lemma rstrip_id: "s = [] \<or> \<not> is_space (last s) \<Longrightarrow> rstrip s = s"
proof (cases "s = []")
  case True then show ?thesis by (simp add: rstrip_def)
next
  case False
  assume "s = [] \<or> \<not> is_space (last s)"
  with False have "\<not> is_space (hd (rev s))" by (simp add: hd_rev)
  moreover from False have "rev s \<noteq> []" by simp
  ultimately have "dropWhile is_space (rev s) = rev s" by (cases "rev s") auto
  then show ?thesis by (simp add: rstrip_def)
qed

lemma strip_ends:
  "strip s = [] \<or> (\<not> is_space (hd (strip s)) \<and> \<not> is_space (last (strip s)))"
proof (cases "strip s = []")
  case True then show ?thesis by simp
next
  case False
  let ?v = "lstrip s"
  from False have r: "dropWhile is_space (rev ?v) \<noteq> []" by (simp add: strip_def rstrip_def)
  then have "\<not> is_space (hd (dropWhile is_space (rev ?v)))" by (rule hd_dropWhile)
  with r have l: "\<not> is_space (last (strip s))" by (simp add: strip_def rstrip_def last_rev)
  from False have vne: "?v \<noteq> []" by (auto simp: strip_def rstrip_def)
  then have "\<not> is_space (hd ?v)" unfolding lstrip_def by (rule hd_dropWhile)
  moreover have "hd (strip s) = hd ?v"
    using rstrip_decomp [of ?v] False by (metis hd_append2 strip_def)
  ultimately show ?thesis using l by simp
qed

lemma strip_strip: "strip (strip s) = strip s"
  using strip_ends [of s] by (auto simp: strip_def [of "strip s"] lstrip_id rstrip_id)

lemma replace_formfeed_set: "set (replace_formfeed s) \<subseteq> (set s - {12}) \<union> {10}"
  by (induction s) (auto simp: replace_formfeed_def)

lemma replace_formfeed_id: "12 \<notin> set s \<Longrightarrow> replace_formfeed s = s"
  by (induction s) (auto simp: replace_formfeed_def)

lemma collapse_blanks_set: "set (collapse_blanks s) \<subseteq> set s \<union> {32}"
proof (induction s rule: collapse_blanks.induct)
  case 1 show ?case by simp
next
  case (2 c cs)
  then show ?case using set_dropWhileD [of _ is_blank cs] by (cases "is_blank c") auto
qed

lemma collapse_newlines_set: "set (collapse_newlines s) \<subseteq> set s"
proof (induction s rule: collapse_newlines.induct)
  case 1 show ?case by simp
next
  case (2 c cs)
  show ?case
  proof (cases "c = 10")
    case True
    with 2 have "set (collapse_newlines (dropWhile (\<lambda>x. x = 10) cs)) \<subseteq> set cs"
      using set_dropWhileD [of _ "\<lambda>x. x = 10" cs] by auto
    moreover have "set (takeWhile (\<lambda>x. x = 10) (c # cs)) \<subseteq> {10}"
      by (auto dest: set_takeWhileD)
    ultimately show ?thesis using True by (auto simp del: takeWhile.simps)
  next
    case False with 2 show ?thesis by auto
  qed
qed

lemma allowed_basic: "allowed d 10" "allowed d 32"
  by (simp_all add: allowed_def is_space_def)

text \<open>
  When every character of the input is in the allow-list, the deletion pass removes
  nothing and one pass already gives a fixed point.
\<close>

lemma clean_text_fixed_on_allowed:
  assumes "\<forall>c \<in> set s. allowed d c"
  shows "clean_text d (clean_text d s) = clean_text d s"
proof (cases "s = []")
  case True then show ?thesis by (simp add: clean_text_def)
next
  case False
  define t where "t = collapse_newlines (collapse_blanks (replace_formfeed s))"
  define u where "u = strip t"
  have st: "set t \<subseteq> (set s - {12}) \<union> {10, 32}"
    unfolding t_def
    using collapse_newlines_set [of "collapse_blanks (replace_formfeed s)"]
      collapse_blanks_set [of "replace_formfeed s"] replace_formfeed_set [of s]
    by blast
  with assms have al: "\<forall>c \<in> set t. allowed d c" using allowed_basic [of d] by auto
  then have ft: "filter (allowed d) t = t" by simp
  from False have cs: "clean_text d s = u"
    using ft by (simp add: clean_text_def t_def [symmetric] u_def)
  have "tidy_blanks t" unfolding t_def by (intro tidy_collapse_newlines tidy_collapse_blanks)
  then have tu: "tidy_blanks u" unfolding u_def by (rule tidy_strip)
  have "no_long_break t" unfolding t_def by (rule no_long_break_collapse)
  then have nu: "no_long_break u" unfolding u_def by (rule no_long_break_strip)
  have su: "set u \<subseteq> set t" unfolding u_def by (rule set_strip)
  with st have "12 \<notin> set u" by auto
  then have 1: "replace_formfeed u = u" by (rule replace_formfeed_id)
  from tu have 2: "collapse_blanks u = u" by (rule collapse_blanks_tidy)
  from nu have 3: "collapse_newlines u = u" by (rule collapse_newlines_id)
  from su al have "\<forall>c \<in> set u. allowed d c" by blast
  then have 4: "filter (allowed d) u = u" by simp
  have 5: "strip u = u" unfolding u_def by (rule strip_strip)
  have "clean_text d u = u" by (simp add: clean_text_def 1 2 3 4 5)
  with cs show ?thesis by simp
qed

lemma clean_quote: "clean_text latin1 [97, 32, 34, 32, 98] = [97, 32, 32, 98]"
  by (simp add: clean_text_def replace_formfeed_def is_blank_def allowed_def is_word_def
        is_alnum_def is_space_def strip_def lstrip_def rstrip_def)

lemma clean_quote_again: "clean_text latin1 [97, 32, 32, 98] = [97, 32, 98]"
  by (simp add: clean_text_def replace_formfeed_def is_blank_def allowed_def is_word_def
        is_alnum_def is_space_def strip_def lstrip_def rstrip_def)

text \<open>
  C4 as stated fails.  On \<open>a " b\<close> the quotation mark is deleted after the runs of
  blanks were collapsed, which leaves two adjacent spaces; a second pass collapses them.
\<close>

theorem C4_idempotence_counterexample:
  "clean_text latin1 (clean_text latin1 [97, 32, 34, 32, 98]) \<noteq> clean_text latin1 [97, 32, 34, 32, 98]"
  by (simp add: clean_quote clean_quote_again)

lemma clean_text_allowed: "\<forall>c \<in> set (clean_text d s). allowed d c"
proof (cases "s = []")
  case True then show ?thesis by (simp add: clean_text_def)
next
  case False
  from False have "clean_text d s =
      strip (filter (allowed d) (collapse_newlines (collapse_blanks (replace_formfeed s))))"
    by (simp add: clean_text_def)
  then have "set (clean_text d s) \<subseteq>
      set (filter (allowed d) (collapse_newlines (collapse_blanks (replace_formfeed s))))"
    by (simp only: set_strip)
  then show ?thesis by auto
qed

text \<open>
  C4 (as amended).  For every input string, the result of normalising twice is a fixed
  point of the normaliser: normalising three times gives the same string as normalising
  twice.  (After one pass every character is in the allow-list, so the second pass deletes
  nothing and only collapses the runs that the first deletion left.)
\<close>

theorem C4_clean_text_stabilises:
  "clean_text d (clean_text d (clean_text d s)) = clean_text d (clean_text d s)"
  using clean_text_allowed [of d s] by (rule clean_text_fixed_on_allowed)

subsection \<open>Article segmentation\<close>

lemmas segment_eval = extract_article_with_context_def kw_articulo_def kw_art_def asc_def
      match_head_def match_keyword_def match_number_def lookahead_def at_end_def is_sep_def
      is_space_def is_decimal_def strip_def lstrip_def rstrip_def Let_def

text \<open>
  C6.  On \<open>Art\<iacute>culo 7. Body text. Art\<iacute>culo 8. More text.\<close> the segmenter returns exactly
  two units, in document order, numbered 7 and 8; their contents are the rebuilt heading
  followed by the trimmed body, and the first body ends before the second marker.  This
  holds for every classification of the code points above U+00FF.
\<close>

theorem C6_two_articles: "extract_article_with_context d c6_input =
   [\<lparr>number = asc ''7'', content = kw_articulo @ asc '' 7. Body text.''\<rparr>,
    \<lparr>number = asc ''8'', content = kw_articulo @ asc '' 8. More text.''\<rparr>]"
  by (simp add: c6_input_def segment_eval)

text \<open>
  C5 as stated fails: an upper-case or a lower-case heading gives no unit at all, the
  heading spelled \<open>Art\<iacute>culo\<close> gives one.
\<close>

theorem C5_case_counterexample:
  "extract_article_with_context latin1 heading_upper = []
   \<and> extract_article_with_context latin1 heading_lower = []
   \<and> extract_article_with_context latin1 heading_canonical =
       [\<lparr>number = asc ''5'', content = kw_articulo @ asc '' 5. Plazo.''\<rparr>]"
  by (simp add: heading_upper_def heading_lower_def heading_canonical_def segment_eval)

lemma match_keyword_sublist:
  "match_keyword s = Some s0 \<Longrightarrow> sublist kw_articulo s \<or> sublist kw_art s"
  by (auto simp: match_keyword_def split: if_splits)

lemma match_head_sublist:
  "match_head d s = Some r \<Longrightarrow> sublist kw_articulo s \<or> sublist kw_art s"
  by (auto simp: match_head_def split: option.splits dest: match_keyword_sublist)

lemma finditer_no_keyword:
  "\<not> sublist kw_articulo s \<Longrightarrow> \<not> sublist kw_art s \<Longrightarrow> finditer d s = []"
proof (induction s)
  case Nil show ?case by simp
next
  case (Cons c cs)
  from Cons.prems have "match_head d (c # cs) = None"
    using match_head_sublist [of d "c # cs"] by (cases "match_head d (c # cs)") auto
  moreover from Cons.prems have "\<not> sublist kw_articulo cs" "\<not> sublist kw_art cs"
    by (auto dest: sublist_Cons_right [THEN iffD2, OF disjI2])
  ultimately show ?case using Cons.IH by simp
qed

lemma no_exact_spelling_no_unit:
  "\<not> sublist kw_articulo s \<Longrightarrow> \<not> sublist kw_art s \<Longrightarrow>
   extract_article_with_context d s = []"
  by (simp add: extract_article_with_context_def finditer_no_keyword)

lemma tails_append: "tails (m @ r) = map (\<lambda>t. t @ r) (tails m) @ tails r"
  by (induction m) auto

lemma tails_nonempty: "t \<in> set (tails m) \<Longrightarrow> t \<noteq> [] \<and> hd t \<in> set m"
  by (induction m) auto

lemma map_filter_append: "List.map_filter f (xs @ ys) = List.map_filter f xs @ List.map_filter f ys"
  by (simp add: List.map_filter_def)

lemma map_filter_all_None: "(\<forall>x \<in> set xs. f x = None) \<Longrightarrow> List.map_filter f xs = []"
  by (induction xs) (auto simp: List.map_filter_simps)

lemma match_keyword_hd: "match_keyword s = Some s0 \<Longrightarrow> s \<noteq> [] \<and> hd s = 65"
  by (auto simp: match_keyword_def kw_articulo_def kw_art_def asc_def prefix_def split: if_splits)

lemma match_keyword_decomp:
  "match_keyword s = Some s0 \<Longrightarrow> (s = kw_articulo @ s0 \<or> s = kw_art @ s0)"
  by (auto simp: match_keyword_def prefix_def split: if_splits)

lemma match_keyword_compose:
  "match_keyword (kw_articulo @ s0) = Some s0" "match_keyword (kw_art @ s0) = Some s0"
  by (simp_all add: match_keyword_def kw_articulo_def kw_art_def asc_def)

lemma match_number_decomp:
  assumes "match_number d s0 = Some (num, s2)"
  shows "\<exists>sp. s0 = sp @ num @ s2 \<and> (\<forall>c \<in> set sp. c = 32) \<and> num \<noteq> []
           \<and> (\<forall>c \<in> set num. is_decimal d c) \<and> (s2 = [] \<or> \<not> is_decimal d (hd s2))"
proof -
  let ?s1 = "dropWhile (\<lambda>c. c = 32) s0"
  from assms have n: "num = takeWhile (is_decimal d) ?s1" and r: "s2 = dropWhile (is_decimal d) ?s1"
    and ne: "num \<noteq> []"
    by (auto simp: match_number_def Let_def split: if_splits)
  have "s0 = takeWhile (\<lambda>c. c = 32) s0 @ num @ s2" by (simp add: n r)
  moreover have "\<forall>c \<in> set (takeWhile (\<lambda>c. c = 32) s0). c = 32" by (auto dest: set_takeWhileD)
  moreover have "\<forall>c \<in> set num. is_decimal d c" unfolding n by (auto dest: set_takeWhileD)
  moreover have "s2 = [] \<or> \<not> is_decimal d (hd s2)" unfolding r using hd_dropWhile by blast
  ultimately show ?thesis using ne by blast
qed

lemma dropWhile_all: "(\<forall>c \<in> set xs. P c) \<Longrightarrow> ys = [] \<or> \<not> P (hd ys) \<Longrightarrow> dropWhile P (xs @ ys) = ys"
  by (cases ys) (auto simp: dropWhile_append)

lemma takeWhile_all: "(\<forall>c \<in> set xs. P c) \<Longrightarrow> ys = [] \<or> \<not> P (hd ys) \<Longrightarrow> takeWhile P (xs @ ys) = xs"
  by (cases ys) (auto simp: takeWhile_append)

lemma decimal_not_space: "is_decimal d c \<Longrightarrow> c \<noteq> 32 \<and> \<not> is_sep c"
  by (auto simp: is_decimal_def is_sep_def is_space_def split: if_splits)

lemma match_number_compose:
  assumes "\<forall>c \<in> set sp. c = 32" "num \<noteq> []" "\<forall>c \<in> set num. is_decimal d c"
    "s2 = [] \<or> \<not> is_decimal d (hd s2)"
  shows "match_number d (sp @ num @ s2) = Some (num, s2)"
proof -
  from assms(2,3) have "\<not> (hd (num @ s2) = 32)" using decimal_not_space [of d "hd num"] by (cases num) auto
  with assms(1,2) have 1: "dropWhile (\<lambda>c. c = 32) (sp @ num @ s2) = num @ s2"
    by (intro dropWhile_all) auto
  from assms(3,4) have 2: "takeWhile (is_decimal d) (num @ s2) = num" by (intro takeWhile_all) auto
  from assms(3,4) have 3: "dropWhile (is_decimal d) (num @ s2) = s2" by (intro dropWhile_all) auto
  show ?thesis using assms(2) by (simp add: match_number_def 1 2 3)
qed

lemma match_head_iff:
  "match_head d s = Some (num, r) \<longleftrightarrow>
     (\<exists>kw sp seps. s = kw @ sp @ num @ seps @ r \<and> (kw = kw_articulo \<or> kw = kw_art)
        \<and> (\<forall>c \<in> set sp. c = 32) \<and> num \<noteq> [] \<and> (\<forall>c \<in> set num. is_decimal d c)
        \<and> seps \<noteq> [] \<and> (\<forall>c \<in> set seps. is_sep c) \<and> (r = [] \<or> \<not> is_sep (hd r)))"
proof
  assume h: "match_head d s = Some (num, r)"
  then obtain s0 s2 where k: "match_keyword s = Some s0" and n: "match_number d s0 = Some (num, s2)"
    and s2: "s2 \<noteq> []" "is_sep (hd s2)" and r: "r = dropWhile is_sep s2"
    by (auto simp: match_head_def split: option.splits if_splits)
  from match_number_decomp [OF n] obtain sp where sp: "s0 = sp @ num @ s2" "\<forall>c \<in> set sp. c = 32"
    "num \<noteq> []" "\<forall>c \<in> set num. is_decimal d c" by blast
  let ?seps = "takeWhile is_sep s2"
  have "s2 = ?seps @ r" by (simp add: r)
  moreover have "?seps \<noteq> []" using s2 by (cases s2) auto
  moreover have "\<forall>c \<in> set ?seps. is_sep c" by (auto dest: set_takeWhileD)
  moreover have "r = [] \<or> \<not> is_sep (hd r)" unfolding r using hd_dropWhile by blast
  ultimately show "\<exists>kw sp seps. s = kw @ sp @ num @ seps @ r \<and> (kw = kw_articulo \<or> kw = kw_art)
        \<and> (\<forall>c \<in> set sp. c = 32) \<and> num \<noteq> [] \<and> (\<forall>c \<in> set num. is_decimal d c)
        \<and> seps \<noteq> [] \<and> (\<forall>c \<in> set seps. is_sep c) \<and> (r = [] \<or> \<not> is_sep (hd r))"
    using match_keyword_decomp [OF k] sp by (metis append.assoc)
next
  assume "\<exists>kw sp seps. s = kw @ sp @ num @ seps @ r \<and> (kw = kw_articulo \<or> kw = kw_art)
        \<and> (\<forall>c \<in> set sp. c = 32) \<and> num \<noteq> [] \<and> (\<forall>c \<in> set num. is_decimal d c)
        \<and> seps \<noteq> [] \<and> (\<forall>c \<in> set seps. is_sep c) \<and> (r = [] \<or> \<not> is_sep (hd r))"
  then obtain kw sp seps where s: "s = kw @ sp @ num @ seps @ r" and kw: "kw = kw_articulo \<or> kw = kw_art"
    and sp: "\<forall>c \<in> set sp. c = 32" and num: "num \<noteq> []" "\<forall>c \<in> set num. is_decimal d c"
    and seps: "seps \<noteq> []" "\<forall>c \<in> set seps. is_sep c" and r: "r = [] \<or> \<not> is_sep (hd r)"
    by blast
  from kw have k: "match_keyword s = Some (sp @ num @ seps @ r)"
    unfolding s using match_keyword_compose by blast
  from seps have hs: "is_sep (hd (seps @ r))" by (cases seps) auto
  then have "\<not> is_decimal d (hd (seps @ r))" using decimal_not_space by blast
  with sp num have n: "match_number d (sp @ num @ seps @ r) = Some (num, seps @ r)"
    by (intro match_number_compose) auto
  from seps r have "dropWhile is_sep (seps @ r) = r" by (intro dropWhile_all) auto
  with k n hs seps show "match_head d s = Some (num, r)" by (simp add: match_head_def)
qed

lemma match_head_lookahead: "match_head d s = Some x \<Longrightarrow> lookahead d s"
  by (auto simp: match_head_def lookahead_def split: option.splits if_splits)

lemma match_head_needs_A: "s = [] \<or> hd s \<noteq> 65 \<Longrightarrow> match_head d s = None"
  using match_keyword_hd [of s] by (cases "match_keyword s") (auto simp: match_head_def)

lemma skip_body:
  "List.map_filter (match_head d) (tails r) =
   List.map_filter (match_head d) (tails (snd (lazy_body d r)))"
proof (induction r)
  case Nil show ?case by simp
next
  case (Cons c cs)
  show ?case
  proof (cases "lookahead d (c # cs)")
    case True then show ?thesis by simp
  next
    case False
    then have "match_head d (c # cs) = None"
      using match_head_lookahead [of d "c # cs"] by (cases "match_head d (c # cs)") auto
    with False Cons show ?thesis by (simp add: List.map_filter_simps split: prod.splits)
  qed
qed

lemma no_A_in_head:
  assumes "kw = kw_articulo \<or> kw = kw_art" "\<forall>c \<in> set sp. c = 32"
    "\<forall>c \<in> set num. is_decimal d c" "\<forall>c \<in> set seps. is_sep c"
  shows "65 \<notin> set (tl (kw @ sp @ num @ seps))"
proof -
  have "tl (kw @ sp @ num @ seps) = tl kw @ sp @ num @ seps"
    using assms(1) by (auto simp: kw_articulo_def kw_art_def asc_def)
  moreover have "65 \<notin> set (tl kw)" using assms(1) by (auto simp: kw_articulo_def kw_art_def asc_def)
  moreover have "65 \<notin> set sp" using assms(2) by auto
  moreover have "65 \<notin> set num" using assms(3) by (auto simp: is_decimal_def)
  moreover have "65 \<notin> set seps" using assms(4) by (auto simp: is_sep_def is_space_def)
  ultimately show ?thesis by simp
qed

lemma skip_head:
  assumes "match_head d (c # cs) = Some (num, r)"
  shows "List.map_filter (match_head d) (tails cs) = List.map_filter (match_head d) (tails r)"
proof -
  from assms [unfolded match_head_iff] obtain kw sp seps where
    s: "c # cs = kw @ sp @ num @ seps @ r" and kw: "kw = kw_articulo \<or> kw = kw_art"
    and rest: "\<forall>c \<in> set sp. c = 32" "\<forall>c \<in> set num. is_decimal d c" "\<forall>c \<in> set seps. is_sep c"
    by blast
  define h where "h = kw @ sp @ num @ seps"
  define m where "m = tl h"
  have "h \<noteq> []" unfolding h_def using kw by (auto simp: kw_articulo_def kw_art_def asc_def)
  moreover from s have "c # cs = h @ r" unfolding h_def by simp
  ultimately have cs: "cs = m @ r" unfolding m_def by (cases h) auto
  have noA: "65 \<notin> set m" unfolding m_def h_def using kw rest by (rule no_A_in_head)
  have "\<forall>x \<in> set (map (\<lambda>t. t @ r) (tails m)). match_head d x = None"
  proof
    fix x assume "x \<in> set (map (\<lambda>t. t @ r) (tails m))"
    then obtain t where t: "t \<in> set (tails m)" and x: "x = t @ r" by auto
    from tails_nonempty [OF t] noA have "t \<noteq> []" "hd t \<noteq> 65" by auto
    then have "hd x \<noteq> 65" unfolding x by simp
    then show "match_head d x = None" by (intro match_head_needs_A) simp
  qed
  then have "List.map_filter (match_head d) (map (\<lambda>t. t @ r) (tails m)) = []"
    by (rule map_filter_all_None)
  then show ?thesis by (simp add: cs tails_append map_filter_append)
qed

lemma finditer_eq:
  "finditer d s =
     map (\<lambda>(num, r). (num, fst (lazy_body d r))) (List.map_filter (match_head d) (tails s))"
proof (induction d s rule: finditer.induct)
  case (1 d) show ?case by (simp add: List.map_filter_simps)
next
  case (2 d c cs)
  show ?case
  proof (cases "match_head d (c # cs)")
    case None
    with 2 show ?thesis by (simp add: List.map_filter_simps)
  next
    case (Some x)
    obtain num r where x: "x = (num, r)" by (cases x)
    from Some x have h: "match_head d (c # cs) = Some (num, r)" by simp
    from 2(2) [OF h refl] have ih: "finditer d (snd (lazy_body d r)) =
      map (\<lambda>(num, r). (num, fst (lazy_body d r)))
        (List.map_filter (match_head d) (tails (snd (lazy_body d r))))" .
    have "List.map_filter (match_head d) (tails cs) =
          List.map_filter (match_head d) (tails (snd (lazy_body d r)))"
      using skip_head [OF h] skip_body [of d r] by simp
    with h ih show ?thesis by (simp add: List.map_filter_simps)
  qed
qed

text \<open>
  C5 (as amended).  The marker is matched case-sensitively.  The units are, in document
  order, exactly the positions of the text at which the head of the pattern matches, and
  the head matches at a position exactly when the text there reads \<open>Art\<iacute>culo\<close> or
  \<open>Art.\<close> in this spelling, followed by spaces (possibly none), a decimal numeral and at
  least one separator (the numeral and the run of separators taken whole).  A heading in
  another letter case starts no unit and stays in the surrounding text; a text in which
  neither spelling occurs gives no unit.
\<close>

theorem C5_units_at_exact_spellings:
  "extract_article_with_context d s =
     map (\<lambda>(num, r). \<lparr>number = num,
            content = kw_articulo @ asc '' '' @ num @ asc ''. '' @ strip (fst (lazy_body d r))\<rparr>)
       (List.map_filter (match_head d) (tails s))
   \<and> (match_head d s = Some (num, r) \<longleftrightarrow>
        (\<exists>kw sp seps. s = kw @ sp @ num @ seps @ r \<and> (kw = kw_articulo \<or> kw = kw_art)
           \<and> (\<forall>c \<in> set sp. c = 32) \<and> num \<noteq> [] \<and> (\<forall>c \<in> set num. is_decimal d c)
           \<and> seps \<noteq> [] \<and> (\<forall>c \<in> set seps. is_sep c) \<and> (r = [] \<or> \<not> is_sep (hd r))))
   \<and> (\<not> sublist kw_articulo s \<and> \<not> sublist kw_art s \<longrightarrow>
        extract_article_with_context d s = [])"
proof (intro conjI impI)
  show "extract_article_with_context d s =
     map (\<lambda>(num, r). \<lparr>number = num,
            content = kw_articulo @ asc '' '' @ num @ asc ''. '' @ strip (fst (lazy_body d r))\<rparr>)
       (List.map_filter (match_head d) (tails s))"
    by (simp add: extract_article_with_context_def finditer_eq split_def)
  show "match_head d s = Some (num, r) \<longleftrightarrow>
        (\<exists>kw sp seps. s = kw @ sp @ num @ seps @ r \<and> (kw = kw_articulo \<or> kw = kw_art)
           \<and> (\<forall>c \<in> set sp. c = 32) \<and> num \<noteq> [] \<and> (\<forall>c \<in> set num. is_decimal d c)
           \<and> seps \<noteq> [] \<and> (\<forall>c \<in> set seps. is_sep c) \<and> (r = [] \<or> \<not> is_sep (hd r)))"
    by (rule match_head_iff)
  show "extract_article_with_context d s = []"
    if "\<not> sublist kw_articulo s \<and> \<not> sublist kw_art s"
    using that by (simp add: no_exact_spelling_no_unit)
qed

theorem C5_units_at_exact_spellings_witness:
  "extract_article_with_context latin1 heading_mixed =
     [\<lparr>number = asc ''6'',
       content = kw_articulo @ asc '' 6. Dos. art'' @ [237] @ asc ''culo 7. Tres.''\<rparr>]
   \<and> match_head latin1 (kw_art @ asc ''7. Tres'') = Some (asc ''7'', asc ''Tres'')
   \<and> \<not> sublist kw_articulo heading_upper \<and> \<not> sublist kw_art heading_upper
   \<and> extract_article_with_context latin1 heading_upper = []"
proof -
  note t = C5_units_at_exact_spellings [of latin1]
  have m: "extract_article_with_context latin1 heading_mixed =
     [\<lparr>number = asc ''6'',
       content = kw_articulo @ asc '' 6. Dos. art'' @ [237] @ asc ''culo 7. Tres.''\<rparr>]"
    by (subst t [THEN conjunct1])
       (simp add: heading_mixed_def List.map_filter_simps segment_eval)
  have "\<exists>kw sp seps. kw_art @ asc ''7. Tres'' = kw @ sp @ asc ''7'' @ seps @ asc ''Tres''
           \<and> (kw = kw_articulo \<or> kw = kw_art)
           \<and> (\<forall>c \<in> set sp. c = 32) \<and> asc ''7'' \<noteq> [] \<and> (\<forall>c \<in> set (asc ''7''). is_decimal latin1 c)
           \<and> seps \<noteq> [] \<and> (\<forall>c \<in> set seps. is_sep c)
           \<and> (asc ''Tres'' = [] \<or> \<not> is_sep (hd (asc ''Tres'')))"
    by (rule exI [of _ kw_art], rule exI [of _ "[]"], rule exI [of _ "asc ''. ''"])
       (simp add: asc_def is_decimal_def is_sep_def is_space_def)
  with t [THEN conjunct2, THEN conjunct1, of "kw_art @ asc ''7. Tres''" "asc ''7''" "asc ''Tres''"]
  have h: "match_head latin1 (kw_art @ asc ''7. Tres'') = Some (asc ''7'', asc ''Tres'')"
    by blast
  have a: "\<not> sublist kw_articulo heading_upper"
    by (simp add: heading_upper_def kw_articulo_def asc_def sublist_Cons_right)
  have b: "\<not> sublist kw_art heading_upper"
    by (simp add: heading_upper_def kw_art_def asc_def sublist_Cons_right)
  from t [THEN conjunct2, THEN conjunct2, of heading_upper] a b
  have "extract_article_with_context latin1 heading_upper = []" by blast
  with m h a b show ?thesis by blast
qed

subsection \<open>Document builder\<close>

lemma process_files_eq:
  "process_files d sp folder entries (acc, errs) =
     (acc @ concat (map (\<lambda>entry. case process_file d sp folder entry of
                                     Inl e \<Rightarrow> [] | Inr ds \<Rightarrow> ds) entries),
      errs @ concat (map (\<lambda>entry. case process_file d sp folder entry of
                                     Inl e \<Rightarrow> [error_record (fst entry) e] | Inr ds \<Rightarrow> []) entries))"
  by (induction entries arbitrary: acc errs) (auto split: sum.splits)

lemma read_pages_fails:
  "Inl e \<in> set pages \<Longrightarrow> \<exists>e'. read_pages i pages full_text page_texts = Inl e'"
  by (induction pages arbitrary: i full_text page_texts) (auto split: sum.splits option.splits)

lemma process_file_open_fails: "process_file d sp folder (filename, Inl e) = Inl e"
  by (simp add: process_file_def)

lemma process_file_page_fails:
  "Inl e \<in> set pages \<Longrightarrow> \<exists>e'. process_file d sp folder (filename, Inr pages) = Inl e'"
  using read_pages_fails [of e pages 1 "[]" "[]"] by (auto simp: process_file_def)

lemma length_strip: "length (strip s) \<le> length s"
proof -
  have "length (strip s) \<le> length (lstrip s)"
    by (simp add: strip_def rstrip_def length_dropWhile_le [of is_space "rev (lstrip s)", simplified])
  also have "\<dots> \<le> length s" by (simp add: lstrip_def length_dropWhile_le)
  finally show ?thesis .
qed

lemma chunk_documents_eq:
  "chunk_documents d fn p pts chunks acc =
     acc @ map (chunk_document d fn p pts) (filter (\<lambda>c. 100 \<le> length (strip c)) chunks)"
  by (induction chunks arbitrary: acc) (auto simp: not_less)

lemma chunk_documents_set:
  "doc \<in> set (chunk_documents d fn p pts chunks acc) \<Longrightarrow>
   doc \<in> set acc \<or> (\<exists>c \<in> set chunks. 100 \<le> length (strip c) \<and> doc = chunk_document d fn p pts c)"
  by (auto simp: chunk_documents_eq)

lemma article_not_general: "asc ''article'' \<noteq> asc ''general''"
  by (simp add: asc_def)

lemma process_file_general:
  assumes "process_file d sp folder entry = Inr ds" and "doc \<in> set ds"
    and "content_type (metadata doc) = Some (asc ''general'')"
  shows "100 \<le> length (strip (page_content doc))"
proof -
  obtain filename pdf where entry: "entry = (filename, pdf)" by (cases entry)
  from assms(1) entry obtain pages full_text page_texts where
    "pdf = Inr pages" and "read_pages 1 pages [] [] = Inr (full_text, page_texts)"
    by (auto simp: process_file_def split: sum.splits)
  with assms(1) entry have
    ds: "ds = chunk_documents d filename (path_join folder filename) page_texts
           (sp (fold (\<lambda>a t. str_remove (content a) t)
                  (extract_article_with_context d (clean_text d full_text)) (clean_text d full_text)))
           (map (article_document d filename (path_join folder filename) page_texts)
              (extract_article_with_context d (clean_text d full_text)))"
    by (simp add: process_file_def Let_def)
  from assms(2) [unfolded ds] show ?thesis
  proof (drule_tac chunk_documents_set, elim disjE bexE conjE)
    assume "doc \<in> set (map (article_document d filename (path_join folder filename) page_texts)
              (extract_article_with_context d (clean_text d full_text)))"
    then have "content_type (metadata doc) = Some (asc ''article'')"
      by (auto simp: article_document_def)
    with assms(3) article_not_general show ?thesis by simp
  next
    fix c assume "100 \<le> length (strip c)"
      and "doc = chunk_document d filename (path_join folder filename) page_texts c"
    then show ?thesis by (simp add: chunk_document_def)
  qed
qed

text \<open>
  C7.  Whatever the splitter returns, the builder stores no chunk whose length after
  \<open>strip\<close> is below 100: every General document of the result has a content of trimmed
  length at least 100, hence of length at least 100.
\<close>

theorem C7_general_units_at_least_100:
  assumes "extract_text_from_folder d split_text folder_path listing = Inr (docs, errors)"
    and "doc \<in> set docs"
    and "content_type (metadata doc) = Some (asc ''general'')"
  shows "100 \<le> length (strip (page_content doc)) \<and> 100 \<le> length (page_content doc)"
proof -
  from assms(1) obtain entries where
    "docs = concat (map (\<lambda>entry. case process_file d split_text folder_path entry of
                                     Inl e \<Rightarrow> [] | Inr ds \<Rightarrow> ds)
                      (filter (\<lambda>entry. is_pdf_name (fst entry)) entries))"
    by (auto simp: extract_text_from_folder_def process_files_eq split: sum.splits)
  with assms(2) obtain entry where
    m: "doc \<in> set (case process_file d split_text folder_path entry of
                       Inl e \<Rightarrow> [] | Inr ds \<Rightarrow> ds)"
    by auto
  then obtain ds where "process_file d split_text folder_path entry = Inr ds"
    and "doc \<in> set ds"
    by (cases "process_file d split_text folder_path entry") auto
  with assms(3) have "100 \<le> length (strip (page_content doc))"
    by (rule_tac process_file_general)
  moreover have "length (strip (page_content doc)) \<le> length (page_content doc)"
    by (rule length_strip)
  ultimately show ?thesis by simp
qed

lemmas builder_eval = extract_text_from_folder_def process_file_def is_pdf_name_def
  ascii_lower_def path_join_def page_marker_def article_document_def chunk_document_def
  error_record_def clean_text_def replace_formfeed_def is_blank_def allowed_def is_word_def
  is_alnum_def is_space_def strip_def lstrip_def rstrip_def asc_def Let_def
  extract_article_with_context_def kw_articulo_def kw_art_def
      match_head_def match_keyword_def match_number_def lookahead_def at_end_def is_sep_def
      is_decimal_def

lemma long_eval:
  "extract_text_from_folder latin1 text_and_tail (asc ''convocatorias'') (Inr [pdf_long]) =
   Inr ([\<lparr>page_content = asc ''P'' @ [193] @ asc ''GINA 1'' @ [10] @ replicate 100 120,
          metadata = \<lparr>source = Some (asc ''c.pdf''),
            file_path = Some (asc ''convocatorias/c.pdf''),
            content_type = Some (asc ''general''), article_number = None, page = None\<rparr>\<rparr>], [])"
  by code_simp

theorem C7_general_units_at_least_100_witness:
  "extract_text_from_folder latin1 text_and_tail (asc ''convocatorias'') (Inr [pdf_long]) =
   Inr ([\<lparr>page_content = asc ''P'' @ [193] @ asc ''GINA 1'' @ [10] @ replicate 100 120,
          metadata = \<lparr>source = Some (asc ''c.pdf''),
            file_path = Some (asc ''convocatorias/c.pdf''),
            content_type = Some (asc ''general''), article_number = None, page = None\<rparr>\<rparr>], [])
   \<and> 100 \<le> length (strip (asc ''P'' @ [193] @ asc ''GINA 1'' @ [10] @ replicate 100 120))
   \<and> 100 \<le> length (asc ''P'' @ [193] @ asc ''GINA 1'' @ [10] @ replicate 100 (120::nat))"
  using long_eval C7_general_units_at_least_100 [OF long_eval, of
     "\<lparr>page_content = asc ''P'' @ [193] @ asc ''GINA 1'' @ [10] @ replicate 100 120,
          metadata = \<lparr>source = Some (asc ''c.pdf''),
            file_path = Some (asc ''convocatorias/c.pdf''),
            content_type = Some (asc ''general''), article_number = None, page = None\<rparr>\<rparr>"]
  by simp

text \<open>
  C3 fails on the code.  A one-page PDF whose page reads \<open>Art. 5. Texto\<close> gives the article
  \<open>Art\<iacute>culo 5. Texto\<close>; the normalised page text does not contain that string, and the
  document's page is 1, not \<open>None\<close>.
\<close>

theorem C3_page_kept_on_miss:
  "extract_text_from_folder d whole_text (asc ''convocatorias'') (Inr [pdf_art5]) =
   Inr ([\<lparr>page_content = kw_articulo @ asc '' 5. Texto'',
          metadata = \<lparr>source = Some (asc ''a.pdf''),
            file_path = Some (asc ''convocatorias/a.pdf''),
            content_type = Some (asc ''article''), article_number = Some (asc ''5''),
            page = Some 1\<rparr>\<rparr>], [])
   \<and> \<not> str_in (kw_articulo @ asc '' 5. Texto'') (clean_text d (asc ''Art. 5. Texto''))"
  by (simp add: pdf_art5_def whole_text_def builder_eval)

text \<open>
  C8.  When the folder can be listed, the builder returns and never raises.  Its documents
  are the documents of the files whose name ends in \<open>.pdf\<close> (in any letter case), file
  by file in listing order, where a file that fails contributes none and one error record.
  A file fails when it cannot be opened or when a page cannot be read.  With no PDF in the
  folder the result is empty, with no error record; when every PDF fails the documents
  are empty.
\<close>

theorem C8_files_independent:
  "extract_text_from_folder d split_text folder_path (Inr entries) =
     Inr (concat (map (\<lambda>entry. case process_file d split_text folder_path entry of
                                  Inl e \<Rightarrow> [] | Inr ds \<Rightarrow> ds)
                   (filter (\<lambda>entry. is_pdf_name (fst entry)) entries)),
          concat (map (\<lambda>entry. case process_file d split_text folder_path entry of
                                  Inl e \<Rightarrow> [error_record (fst entry) e] | Inr ds \<Rightarrow> [])
                   (filter (\<lambda>entry. is_pdf_name (fst entry)) entries)))
   \<and> process_file d split_text folder_path (filename, Inl e) = Inl e
   \<and> (Inl e \<in> set pages \<longrightarrow>
        (\<exists>e'. process_file d split_text folder_path (filename, Inr pages) = Inl e'))
   \<and> (filter (\<lambda>entry. is_pdf_name (fst entry)) entries = [] \<longrightarrow>
        extract_text_from_folder d split_text folder_path (Inr entries) = Inr ([], []))
   \<and> ((\<forall>entry \<in> set entries. is_pdf_name (fst entry) \<longrightarrow>
          (\<exists>e'. process_file d split_text folder_path entry = Inl e')) \<longrightarrow>
        (\<exists>errors. extract_text_from_folder d split_text folder_path (Inr entries)
                     = Inr ([], errors)))"
proof (intro conjI impI)
  show eq: "extract_text_from_folder d split_text folder_path (Inr entries) =
     Inr (concat (map (\<lambda>entry. case process_file d split_text folder_path entry of
                                  Inl e \<Rightarrow> [] | Inr ds \<Rightarrow> ds)
                   (filter (\<lambda>entry. is_pdf_name (fst entry)) entries)),
          concat (map (\<lambda>entry. case process_file d split_text folder_path entry of
                                  Inl e \<Rightarrow> [error_record (fst entry) e] | Inr ds \<Rightarrow> [])
                   (filter (\<lambda>entry. is_pdf_name (fst entry)) entries)))"
    by (simp add: extract_text_from_folder_def process_files_eq)
  show "process_file d split_text folder_path (filename, Inl e) = Inl e"
    by (rule process_file_open_fails)
  show "\<exists>e'. process_file d split_text folder_path (filename, Inr pages) = Inl e'"
    if "Inl e \<in> set pages" using that by (rule process_file_page_fails)
  show "extract_text_from_folder d split_text folder_path (Inr entries) = Inr ([], [])"
    if "filter (\<lambda>entry. is_pdf_name (fst entry)) entries = []"
    using that by (simp add: eq del: filter_empty_conv filter_False)
  show "\<exists>errors. extract_text_from_folder d split_text folder_path (Inr entries) = Inr ([], errors)"
    if h: "\<forall>entry \<in> set entries. is_pdf_name (fst entry) \<longrightarrow>
          (\<exists>e'. process_file d split_text folder_path entry = Inl e')"
  proof -
    have "concat (map (\<lambda>entry. case process_file d split_text folder_path entry of
                                  Inl e \<Rightarrow> [] | Inr ds \<Rightarrow> ds)
                   (filter (\<lambda>entry. is_pdf_name (fst entry)) entries)) = []"
      using h by (auto split: sum.splits)
    then show ?thesis by (simp add: eq)
  qed
qed

lemma sample_outcomes:
  "process_file d whole_text (asc ''convocatorias'') pdf_two_pages =
     Inr [\<lparr>page_content = kw_articulo @ asc '' 1. Uno'' @ [10] @ asc ''P'' @ [193]
              @ asc ''GINA 3'' @ [10] @ asc ''dos tres.'',
           metadata = \<lparr>source = Some (asc ''b.PDF''),
             file_path = Some (asc ''convocatorias/b.PDF''),
             content_type = Some (asc ''article''), article_number = Some (asc ''1''),
             page = Some 3\<rparr>\<rparr>]"
  "process_file d whole_text (asc ''convocatorias'') pdf_unreadable =
     Inl (Failure (asc ''No /Root object''))"
  "process_file d whole_text (asc ''convocatorias'') pdf_bad_page =
     Inl (Failure (asc ''bad page''))"
  "is_pdf_name (fst pdf_two_pages)" "is_pdf_name (fst pdf_unreadable)"
  "is_pdf_name (fst pdf_bad_page)" "\<not> is_pdf_name (fst notes_txt)"
  by (simp_all add: pdf_two_pages_def pdf_unreadable_def pdf_bad_page_def notes_txt_def
        whole_text_def builder_eval)

theorem C8_files_independent_witness:
  "extract_text_from_folder latin1 whole_text (asc ''convocatorias'')
     (Inr [pdf_unreadable, pdf_two_pages, notes_txt, pdf_bad_page]) =
   Inr ([\<lparr>page_content = kw_articulo @ asc '' 1. Uno'' @ [10] @ asc ''P'' @ [193]
              @ asc ''GINA 3'' @ [10] @ asc ''dos tres.'',
           metadata = \<lparr>source = Some (asc ''b.PDF''),
             file_path = Some (asc ''convocatorias/b.PDF''),
             content_type = Some (asc ''article''), article_number = Some (asc ''1''),
             page = Some 3\<rparr>\<rparr>],
        [asc ''Error processing bad.pdf: No /Root object'',
         asc ''Error processing bad2.pdf: bad page''])
   \<and> (\<exists>e'. process_file latin1 whole_text (asc ''convocatorias'')
              (asc ''bad2.pdf'', Inr [Inr (Some (asc ''x'')), Inl (Failure (asc ''bad page''))])
            = Inl e')
   \<and> extract_text_from_folder latin1 whole_text (asc ''convocatorias'') (Inr [notes_txt])
       = Inr ([], [])
   \<and> (\<exists>errors. extract_text_from_folder latin1 whole_text (asc ''convocatorias'')
                  (Inr [pdf_unreadable, pdf_bad_page]) = Inr ([], errors))"
proof (intro conjI)
  note t = C8_files_independent [of latin1 whole_text "asc ''convocatorias''"]
  show "extract_text_from_folder latin1 whole_text (asc ''convocatorias'')
     (Inr [pdf_unreadable, pdf_two_pages, notes_txt, pdf_bad_page]) =
   Inr ([\<lparr>page_content = kw_articulo @ asc '' 1. Uno'' @ [10] @ asc ''P'' @ [193]
              @ asc ''GINA 3'' @ [10] @ asc ''dos tres.'',
           metadata = \<lparr>source = Some (asc ''b.PDF''),
             file_path = Some (asc ''convocatorias/b.PDF''),
             content_type = Some (asc ''article''), article_number = Some (asc ''1''),
             page = Some 3\<rparr>\<rparr>],
        [asc ''Error processing bad.pdf: No /Root object'',
         asc ''Error processing bad2.pdf: bad page''])"
    by (subst t [THEN conjunct1])
       (simp add: sample_outcomes, simp add: error_record_def pdf_unreadable_def
          pdf_bad_page_def asc_def)
  have "Inl (Failure (asc ''bad page'')) \<in>
      set [Inr (Some (asc ''x'')), Inl (Failure (asc ''bad page'')) :: page_outcome]"
    by simp
  with t [THEN conjunct2, THEN conjunct2, THEN conjunct1]
  show "\<exists>e'. process_file latin1 whole_text (asc ''convocatorias'')
              (asc ''bad2.pdf'', Inr [Inr (Some (asc ''x'')), Inl (Failure (asc ''bad page''))])
            = Inl e'"
    by blast
  have "filter (\<lambda>entry. is_pdf_name (fst entry)) [notes_txt] = []"
    by (simp add: sample_outcomes)
  with t [THEN conjunct2, THEN conjunct2, THEN conjunct2, THEN conjunct1]
  show "extract_text_from_folder latin1 whole_text (asc ''convocatorias'') (Inr [notes_txt])
       = Inr ([], [])"
    by blast
  have "\<forall>entry \<in> set [pdf_unreadable, pdf_bad_page]. is_pdf_name (fst entry) \<longrightarrow>
          (\<exists>e'. process_file latin1 whole_text (asc ''convocatorias'') entry = Inl e')"
    by (simp add: sample_outcomes)
  with t [THEN conjunct2, THEN conjunct2, THEN conjunct2, THEN conjunct2]
  show "\<exists>errors. extract_text_from_folder latin1 whole_text (asc ''convocatorias'')
                  (Inr [pdf_unreadable, pdf_bad_page]) = Inr ([], errors)"
    by blast
qed

subsection \<open>Answer operation, context assembly, index handles\<close>

lemma logger_unbound: "''logger'' \<notin> set query_handler_globals"
  by (simp add: query_handler_globals_def)

lemma on_exception_raises: "on_exception e = Inl (NameError (asc ''logger''))"
  by (simp add: on_exception_def logger_unbound)

lemma relevant_one:
  "relevant_docs [(mk_doc (asc ''article'') (asc ''a1''), PyFloat (Finite (7 / 8)))] \<noteq> []"
  by (simp add: relevant_docs_eq is_article_mk_doc lit_003_def)

text \<open>
  C2 fails on the code.  Whenever the search of the index raises, and whenever the
  generation call raises, the \<open>except\<close> block itself raises \<open>NameError\<close> at
  \<open>logger.error\<close>, and that exception reaches the caller: no error string is returned.
\<close>

theorem C2_handler_raises_name_error:
  "answer_query_with_context d query (Some search_down) generate chat_history
     = Inl (NameError (asc ''logger''))
   \<and> answer_query_with_context d query (Some search_one) generate_down chat_history
       = Inl (NameError (asc ''logger''))"
  by (simp add: answer_query_with_context_def answer_body_def search_down_def search_one_def
        generate_down_def relevant_one on_exception_raises)

lemmas context_eval = docs_context_def context_part_def match_page_token_def token_open_def
  Let_def is_decimal_def strip_def lstrip_def rstrip_def is_space_def asc_def kw_articulo_def

text \<open>
  C9 fails on the code.  The builder turns the two-page PDF into an article whose content
  still holds the page marker it inserted, as \<open>P\<Aacute>GINA 3\<close> (normalisation deleted the
  brackets).  Context assembly removes only tokens of the form \<open>[P\<aacute>gina N]\<close>: the marker
  stays in the rendered content and the header shows the page as \<open>N/A\<close>.
\<close>

theorem C9_builder_marker_kept:
  "process_file d whole_text (asc ''convocatorias'') pdf_two_pages =
     Inr [\<lparr>page_content = kw_articulo @ asc '' 1. Uno'' @ [10] @ asc ''P'' @ [193]
              @ asc ''GINA 3'' @ [10] @ asc ''dos tres.'',
           metadata = \<lparr>source = Some (asc ''b.PDF''),
             file_path = Some (asc ''convocatorias/b.PDF''),
             content_type = Some (asc ''article''), article_number = Some (asc ''1''),
             page = Some 3\<rparr>\<rparr>]
   \<and> docs_context d
     [\<lparr>page_content = kw_articulo @ asc '' 1. Uno'' @ [10] @ asc ''P'' @ [193]
              @ asc ''GINA 3'' @ [10] @ asc ''dos tres.'',
       metadata = \<lparr>source = Some (asc ''b.PDF''),
             file_path = Some (asc ''convocatorias/b.PDF''),
             content_type = Some (asc ''article''), article_number = Some (asc ''1''),
             page = Some 3\<rparr>\<rparr>]
   = asc ''[Fuente: b.PDF - P'' @ [225] @ asc ''gina N/A]:'' @ [10]
       @ kw_articulo @ asc '' 1. Uno'' @ [10] @ asc ''P'' @ [193] @ asc ''GINA 3'' @ [10]
       @ asc ''dos tres.''"
  by (simp add: sample_outcomes(1)) (simp add: context_eval)

text \<open>
  C10.  Neither operation raises.  When the engine fails on a non-empty document list,
  \<open>create_index\<close> returns \<open>None\<close>, and so does \<open>update_index\<close> without an existing
  handle; when adding documents to an existing handle fails, \<open>update_index\<close> returns that
  same handle.
\<close>

theorem C10_index_never_raises:
  "(documents \<noteq> [] \<and> from_documents eng documents = Inl e
      \<longrightarrow> create_index eng documents = Inr None)
   \<and> (new_documents \<noteq> [] \<and> from_documents eng new_documents = Inl e
      \<longrightarrow> update_index eng None new_documents = Inr None)
   \<and> (new_documents \<noteq> [] \<and> add_documents eng st new_documents = (Some e, st')
      \<longrightarrow> update_index eng (Some (ident, st)) new_documents = Inr (Some (ident, st')))
   \<and> (\<forall>e'. create_index eng documents \<noteq> Inl e')
   \<and> (\<forall>e'. update_index eng existing_index new_documents \<noteq> Inl e')"
proof (intro conjI impI allI)
  show "create_index eng documents = Inr None"
    if "documents \<noteq> [] \<and> from_documents eng documents = Inl e"
    using that by (simp add: create_index_def)
  show "update_index eng None new_documents = Inr None"
    if "new_documents \<noteq> [] \<and> from_documents eng new_documents = Inl e"
    using that by (simp add: update_index_def create_index_def)
  show "update_index eng (Some (ident, st)) new_documents = Inr (Some (ident, st'))"
    if "new_documents \<noteq> [] \<and> add_documents eng st new_documents = (Some e, st')"
    using that by (simp add: update_index_def)
  show c: "create_index eng docs \<noteq> Inl e'" for e' and docs :: "document list"
    by (simp add: create_index_def split: sum.splits)
  show "update_index eng existing_index new_documents \<noteq> Inl e'" for e'
    using c by (auto simp: update_index_def split: option.splits prod.splits)
qed

theorem C10_index_never_raises_witness:
  "create_index engine_down [mk_doc (asc ''general'') (asc ''g1'')] = Inr None
   \<and> update_index engine_down None [mk_doc (asc ''general'') (asc ''g1'')] = Inr None
   \<and> update_index engine_down (Some (7, 3)) [mk_doc (asc ''general'') (asc ''g1'')]
       = Inr (Some (7, 3))"
proof -
  note t = C10_index_never_raises [of "[mk_doc (asc ''general'') (asc ''g1'')]" engine_down
      "Failure (asc ''connection refused'')" "[mk_doc (asc ''general'') (asc ''g1'')]" 3 3 7]
  have a: "[mk_doc (asc ''general'') (asc ''g1'')] \<noteq> []
     \<and> from_documents engine_down [mk_doc (asc ''general'') (asc ''g1'')]
         = Inl (Failure (asc ''connection refused''))"
    by (simp add: engine_down_def)
  have b: "[mk_doc (asc ''general'') (asc ''g1'')] \<noteq> []
     \<and> add_documents engine_down 3 [mk_doc (asc ''general'') (asc ''g1'')]
         = (Some (Failure (asc ''connection refused'')), 3)"
    by (simp add: engine_down_def)
  from t a b show ?thesis by blast
qed

end
